theory Spec2Isabelle
  imports Main "HOL-Library.Sublist"
begin

section \<open>Common types\<close>

type_synonym path = string
type_synonym bytes = string

text \<open>
  Modelled from the spec: the type \<open>GophorError\<close> is used throughout the sources but is
  declared in a file that is not part of them. Section 7 of the specification names the
  error taxonomy; only the distinction between an error and no error (\<open>nil\<close>) matters to
  the code modelled here.
\<close>

datatype GophorError = IoError | ParseError | NotFound

section \<open>Gophermaps\<close>

subsection \<open>Constants and the environment\<close>

text \<open>
  Modelled from the spec: the constant \<open>CrLf\<close> is declared in a file that is not part of
  the sources; the specification fixes the line ending of a gophermap as CR LF.
\<close>

definition CrLf :: string where
  "CrLf = [CHR 0x0D, CHR 0x0A]"

text \<open>
  Modelled from the spec: the constant \<open>ReplaceStrHostname\<close> is not in the sources; the
  README names the placeholder.
\<close>

definition ReplaceStrHostname :: string where
  "ReplaceStrHostname = ''$hostname''"

text \<open>
  The item types that \<open>readGophermap\<close> distinguishes; \<open>TypeOther\<close> stands for every
  other value (the \<open>default\<close> branch of its switch).
\<close>

datatype ItemType =
    TypeInfoNotStated
  | TypeComment
  | TypeHiddenFile
  | TypeSubGophermap
  | TypeExec
  | TypeEnd
  | TypeEndBeginList
  | TypeOther

datatype GophermapSection =
    GophermapText bytes
  | GophermapDirListing path "string set"

text \<open>
  What the parser and the renderer use and the sources do not define: the classifier
  \<open>parseLineType\<close>, the line builder \<open>buildInfoLine\<close>, the directory lister
  \<open>listDir\<close>, the constants \<open>GophermapFileStr\<close> and \<open>GophermapRenderErrorStr\<close>, the
  flags \<open>*ServerHostname\<close> and \<open>*PageWidth\<close>, and the files that can be opened, each
  with its bytes.
\<close>

record Env =
  parseLineType :: "string \<Rightarrow> ItemType"
  buildInfoLine :: "string \<Rightarrow> bytes"
  listDir :: "path \<Rightarrow> string set \<Rightarrow> GophorError + bytes"
  files :: "path \<rightharpoonup> bytes"
  GophermapFileStr :: string
  GophermapRenderErrorStr :: string
  ServerHostname :: string
  PageWidth :: int

subsection \<open>Rendering\<close>

fun SectionRender :: "Env \<Rightarrow> GophermapSection \<Rightarrow> GophorError + bytes" where
  "SectionRender env (GophermapText contents) = Inr contents"
| "SectionRender env (GophermapDirListing path Hidden) = listDir env path Hidden"

text \<open>The loop of \<open>GophermapContents.Render\<close>, with its accumulator.\<close>

fun RenderLoop :: "Env \<Rightarrow> GophermapSection list \<Rightarrow> bytes \<Rightarrow> bytes" where
  "RenderLoop env [] returnContents = returnContents"
| "RenderLoop env (line # rest) returnContents =
     (let content =
            (case SectionRender env line of
               Inl gophorErr \<Rightarrow> buildInfoLine env (GophermapRenderErrorStr env)
             | Inr content \<Rightarrow> content)
      in RenderLoop env rest (returnContents @ content))"

definition Render :: "Env \<Rightarrow> GophermapSection list \<Rightarrow> bytes" where
  "Render env sections = RenderLoop env sections []"

subsection \<open>Library functions\<close>

text \<open>\<open>bytes.Index\<close>: the index of the first occurrence of \<open>sep\<close>, \<open>None\<close> for -1.\<close>

fun Index :: "bytes \<Rightarrow> bytes \<Rightarrow> nat option" where
  "Index [] sep = (if sep = [] then Some 0 else None)"
| "Index (c # cs) sep =
     (if prefix sep (c # cs) then Some 0 else map_option Suc (Index cs sep))"

text \<open>
  \<open>strings.Replace(s, old, new, -1)\<close>: every occurrence of \<open>old\<close>, left to right and
  without overlap. For an empty \<open>old\<close> Go inserts \<open>new\<close> before every character and at
  the end; this program only passes the non-empty constants \<open>"\n"\<close> and
  \<open>ReplaceStrHostname\<close>.
\<close>

function Replace :: "string \<Rightarrow> string \<Rightarrow> string \<Rightarrow> string" where
  "Replace s old new =
     (if old = [] then new @ concat (map (\<lambda>c. c # new) s)
      else case s of
             [] \<Rightarrow> []
           | c # cs \<Rightarrow>
               if prefix old s then new @ Replace (drop (length old) s) old new
               else c # Replace cs old new)"
  by pat_completeness auto
termination
  by (relation "measure (\<lambda>(s, old, new). length s)") auto

definition TrimSuffix :: "string \<Rightarrow> string \<Rightarrow> string" where
  "TrimSuffix s sfx = (if suffix sfx s then take (length s - length sfx) s else s)"

text \<open>
  \<open>bufio.Scanner\<close> with a split function, on a file read to its end: the tokens it
  delivers. A split function returns the number of bytes to advance and a token, or no
  token (\<open>nil\<close>) to ask for more data; at the end of the file no more data comes and the
  scan stops. \<open>None\<close> is a scan that the library aborts (no progress, or an advance
  beyond the data); the two split functions of this program never cause it. The limit
  on the size of a token is not modelled.
\<close>

function scanTokens :: "(bytes \<Rightarrow> bool \<Rightarrow> nat \<times> bytes option) \<Rightarrow> bytes \<Rightarrow> bytes list option" where
  "scanTokens split data =
     (case split data True of
        (advance, None) \<Rightarrow>
          if advance = 0 then Some []
          else if length data < advance then None
          else scanTokens split (drop advance data)
      | (advance, Some token) \<Rightarrow>
          if advance = 0 \<or> length data < advance then None
          else map_option ((#) token) (scanTokens split (drop advance data)))"
  by pat_completeness auto
termination
  by (relation "measure (\<lambda>(split, data). length data)") auto

text \<open>
  The loop of \<open>bufferedScan\<close> over the tokens: the iterator returns whether to go on.
  \<open>None\<close>: the iterator does not return (it panics or runs forever).
\<close>

fun iterate :: "(string \<Rightarrow> 's \<Rightarrow> (bool \<times> 's) option) \<Rightarrow> string list \<Rightarrow> 's \<Rightarrow> 's option" where
  "iterate iter [] st = Some st"
| "iterate iter (line # rest) st =
     (case iter line st of
        None \<Rightarrow> None
      | Some (continue, st') \<Rightarrow> if continue then iterate iter rest st' else Some st')"

text \<open>
  Modelled from the spec: \<open>bufferedScan\<close> is not in the sources. It opens the file (an
  error when it cannot), scans it with the split function and calls the iterator on each
  token until the iterator returns false or the scan ends. The result is \<open>None\<close> when
  the call does not return, the error, or the state the iterator has built.
\<close>

definition bufferedScan ::
  "Env \<Rightarrow> path \<Rightarrow> (bytes \<Rightarrow> bool \<Rightarrow> nat \<times> bytes option) \<Rightarrow>
   (string \<Rightarrow> 's \<Rightarrow> (bool \<times> 's) option) \<Rightarrow> 's \<Rightarrow> (GophorError + 's) option" where
  "bufferedScan env path split iter st =
     (case files env path of
        None \<Rightarrow> Some (Inl IoError)
      | Some data \<Rightarrow>
          (case scanTokens split data of
             None \<Rightarrow> None
           | Some lines \<Rightarrow> map_option Inr (iterate iter lines st)))"

subsection \<open>Including a plain file: readIntoGophermap\<close>

text \<open>The split function of \<open>readIntoGophermap\<close> (lines 214 to 227).\<close>

definition splitLf :: "bytes \<Rightarrow> bool \<Rightarrow> nat \<times> bytes option" where
  "splitLf data atEOF =
     (if atEOF \<and> length data = 0 then (0, None)
      else case Index data [CHR 0x0A] of
             Some i \<Rightarrow> (i + 1, Some (take (i + 1) data))
           | None \<Rightarrow> (0, None))"

definition minWidth :: "int \<Rightarrow> int \<Rightarrow> int" where
  "minWidth pageWidth w = (if w \<le> pageWidth then w else pageWidth)"

text \<open>
  The loop \<open>for len(line) > 0\<close> of lines 242 to 246. With a negative page width the
  slice \<open>line[:length]\<close> panics, with a page width of zero the line never gets shorter:
  both are \<open>None\<close>.
\<close>

partial_function (option) reflow :: "(string \<Rightarrow> bytes) \<Rightarrow> int \<Rightarrow> string \<Rightarrow> bytes \<Rightarrow> bytes option" where
  "reflow bil pageWidth line fileContents =
     (if 0 < length line then
        (let len = minWidth pageWidth (int (length line))
         in if len < 0 then None
            else reflow bil pageWidth (drop (nat len) line)
                   (fileContents @ bil (take (nat len) line)))
      else Some fileContents)"

declare reflow.simps [code]

definition intoIter :: "Env \<Rightarrow> string \<Rightarrow> bytes \<Rightarrow> (bool \<times> bytes) option" where
  "intoIter env line fileContents =
     (if line = [CHR 0x0A] then Some (True, fileContents @ buildInfoLine env [])
      else map_option (Pair True)
             (reflow (buildInfoLine env) (PageWidth env) (Replace line [CHR 0x0A] []) fileContents))"

definition readIntoGophermap :: "Env \<Rightarrow> path \<Rightarrow> (GophorError + bytes) option" where
  "readIntoGophermap env path =
     (case bufferedScan env path splitLf (intoIter env) [] of
        None \<Rightarrow> None
      | Some (Inl gophorErr) \<Rightarrow> Some (Inl gophorErr)
      | Some (Inr fileContents) \<Rightarrow>
          Some (Inr (if \<not> suffix CrLf fileContents then fileContents @ CrLf
                     else fileContents)))"

subsection \<open>The parser: readGophermap\<close>

text \<open>The split function of \<open>readGophermap\<close> (lines 104 to 117).\<close>

definition splitCrLf :: "bytes \<Rightarrow> bool \<Rightarrow> nat \<times> bytes option" where
  "splitCrLf data atEOF =
     (if atEOF \<and> length data = 0 then (0, None)
      else case Index data CrLf of
             Some i \<Rightarrow> (i + 2, Some (take i data))
           | None \<Rightarrow> (0, None))"

text \<open>The variables that the iterator of \<open>readGophermap\<close> captures.\<close>

record Scan =
  sections :: "GophermapSection list"
  hidden :: "string set"
  dirListing :: "path option"

text \<open>
  The iterator of \<open>readGophermap\<close> (lines 118 to 188). \<open>rec\<close> is the recursive call
  \<open>readGophermap(line[1:])\<close>. The slice \<open>line[1:]\<close> of an empty line panics.
\<close>

definition gophermapIter ::
  "Env \<Rightarrow> (path \<Rightarrow> (GophorError + GophermapSection list) option) \<Rightarrow> path \<Rightarrow>
   string \<Rightarrow> Scan \<Rightarrow> (bool \<times> Scan) option" where
  "gophermapIter env rec path line st =
     (case parseLineType env line of
        TypeInfoNotStated \<Rightarrow>
          Some (True, st\<lparr>sections := sections st @ [GophermapText (buildInfoLine env line)]\<rparr>)
      | TypeComment \<Rightarrow> Some (True, st)
      | TypeHiddenFile \<Rightarrow>
          if line = [] then None
          else Some (True, st\<lparr>hidden := insert (tl line) (hidden st)\<rparr>)
      | TypeSubGophermap \<Rightarrow>
          if line = [] then None
          else if suffix (GophermapFileStr env) (tl line) then
            (if tl line = path then Some (True, st)
             else case rec (tl line) of
                    None \<Rightarrow> None
                  | Some (Inl gophorErr) \<Rightarrow>
                      Some (True, st\<lparr>sections := sections st @
                        [GophermapText (buildInfoLine env (''Error reading subgophermap: '' @ tl line))]\<rparr>)
                  | Some (Inr submapSections) \<Rightarrow>
                      Some (True, st\<lparr>sections := sections st @ submapSections\<rparr>))
          else
            (case readIntoGophermap env (tl line) of
               None \<Rightarrow> None
             | Some (Inl gophorErr) \<Rightarrow>
                 Some (True, st\<lparr>sections := sections st @
                   [GophermapText (buildInfoLine env (''Error reading subgophermap: '' @ tl line))]\<rparr>)
             | Some (Inr fileContents) \<Rightarrow>
                 Some (True, st\<lparr>sections := sections st @ [GophermapText fileContents]\<rparr>))
      | TypeExec \<Rightarrow>
          Some (True, st\<lparr>sections := sections st @
            [GophermapText (buildInfoLine env ''Error: inline shell commands not yet supported'')]\<rparr>)
      | TypeEnd \<Rightarrow> Some (False, st)
      | TypeEndBeginList \<Rightarrow>
          Some (False, st\<lparr>dirListing := Some (TrimSuffix path (GophermapFileStr env))\<rparr>)
      | TypeOther \<Rightarrow>
          Some (True, st\<lparr>sections := sections st @
            [GophermapText (Replace line ReplaceStrHostname (ServerHostname env) @ CrLf)]\<rparr>))"

text \<open>The body of \<open>readGophermap\<close>, its recursive call a parameter.\<close>

definition readGophermapBody ::
  "Env \<Rightarrow> (path \<Rightarrow> (GophorError + GophermapSection list) option) \<Rightarrow> path \<Rightarrow>
   (GophorError + GophermapSection list) option" where
  "readGophermapBody env rec path =
     (case bufferedScan env path splitCrLf (gophermapIter env rec path)
             \<lparr>sections = [], hidden = {}, dirListing = None\<rparr> of
        None \<Rightarrow> None
      | Some (Inl gophorErr) \<Rightarrow> Some (Inl gophorErr)
      | Some (Inr st) \<Rightarrow>
          Some (Inr (case dirListing st of
                       None \<Rightarrow> sections st
                     | Some dir \<Rightarrow> sections st @ [GophermapDirListing dir (hidden st)])))"

text \<open>
  \<open>readGophermap\<close> calls itself on every included gophermap, to a depth that the files
  decide: the first argument bounds the depth of the calls, and \<open>None\<close> is a call that
  does not return within it (or that panics, or whose reflow loop runs forever, whatever
  the bound).
\<close>

primrec readGophermap :: "nat \<Rightarrow> Env \<Rightarrow> path \<Rightarrow> (GophorError + GophermapSection list) option" where
  "readGophermap 0 env path = None"
| "readGophermap (Suc n) env path = readGophermapBody env (readGophermap n env) path"

subsection \<open>Lines of a source and what each contributes\<close>

text \<open>The lines that the scanner of \<open>readGophermap\<close> delivers, and the bytes it leaves.\<close>

definition gophermapLines :: "bytes \<Rightarrow> string list" where
  "gophermapLines data = (case scanTokens splitCrLf data of None \<Rightarrow> [] | Some ls \<Rightarrow> ls)"

function scanRest :: "(bytes \<Rightarrow> bool \<Rightarrow> nat \<times> bytes option) \<Rightarrow> bytes \<Rightarrow> bytes" where
  "scanRest split data =
     (case split data True of
        (advance, token) \<Rightarrow>
          if advance = 0 \<or> length data < advance then data
          else scanRest split (drop advance data))"
  by pat_completeness auto
termination
  by (relation "measure (\<lambda>(split, data). length data)") auto




text \<open>
  A line that is no include directive other than one of the gophermap at \<open>path\<close>
  itself, and no hidden-file directive without its byte.
\<close>

definition onlySelfIncludes :: "Env \<Rightarrow> path \<Rightarrow> string \<Rightarrow> bool" where
  "onlySelfIncludes env path l =
     ((parseLineType env l = TypeSubGophermap \<longrightarrow> l \<noteq> [] \<and> tl l = path) \<and>
      (parseLineType env l = TypeHiddenFile \<longrightarrow> l \<noteq> []))"


subsection \<open>A concrete environment\<close>

text \<open>
  Modelled from the spec: \<open>parseLineType\<close> is not in the sources. The table of section
  4.3 and scenario 3 of section 8 of the specification: \<open>.\<close> and \<open>*\<close> alone end the
  menu; the leading bytes \<open>#\<close>, \<open>-\<close>, \<open>=\<close> and \<open>$\<close> are the comment, the hidden file,
  the include and the exec directive; a line without a tab carries no type byte and is
  plain text; any other line is a menu line.
\<close>

definition specLineType :: "string \<Rightarrow> ItemType" where
  "specLineType line =
     (if line = ''.'' then TypeEnd
      else if line = ''*'' then TypeEndBeginList
      else case line of
             [] \<Rightarrow> TypeInfoNotStated
           | c # cs \<Rightarrow>
               if c = CHR ''#'' then TypeComment
               else if c = CHR ''-'' then TypeHiddenFile
               else if c = CHR ''='' then TypeSubGophermap
               else if c = CHR ''$'' then TypeExec
               else if CHR 0x09 \<in> set line then TypeOther
               else TypeInfoNotStated)"

text \<open>
  Modelled from the spec: \<open>buildInfoLine\<close> is not in the sources. Section 4.1: type byte
  \<open>i\<close>, the text, the selector \<open>-\<close>, a host and a port, separated by tabs, CR LF.
\<close>

definition specInfoLine :: "string \<Rightarrow> bytes" where
  "specInfoLine text =
     ''i'' @ text @ [CHR 0x09] @ ''-'' @ [CHR 0x09] @ ''localhost'' @ [CHR 0x09] @ ''70'' @ CrLf"

definition demoFiles :: "path \<rightharpoonup> bytes" where
  "demoFiles =
     [''/gophermap'' \<mapsto> ''Hello'' @ CrLf @ ''World'',
      ''/self/gophermap'' \<mapsto> ''Welcome'' @ CrLf @ ''=/self/gophermap'' @ CrLf @ ''Bye'' @ CrLf,
      ''/full/gophermap'' \<mapsto> ''one'' @ CrLf @ ''#c'' @ CrLf @ ''two'' @ CrLf,
      ''/menu'' \<mapsto> ''=/menu'' @ CrLf,
      ''/a/gophermap'' \<mapsto> ''=/b/gophermap'' @ CrLf,
      ''/b/gophermap'' \<mapsto> ''=/a/gophermap'' @ CrLf]"

definition demoEnv :: Env where
  "demoEnv =
     \<lparr>parseLineType = specLineType, buildInfoLine = specInfoLine,
      listDir = (\<lambda>path Hidden. Inl IoError), files = demoFiles,
      GophermapFileStr = ''gophermap'', GophermapRenderErrorStr = ''Error rendering gophermap'',
      ServerHostname = ''localhost'', PageWidth = 80\<rparr>"

section \<open>The file cache (sequential semantics)\<close>

subsection \<open>Cacheable files\<close>

text \<open>
  Modelled from the spec: the implementations of the interface \<open>File\<close> (its methods
  \<open>Contents\<close>, \<open>LoadContents\<close>, \<open>IsFresh\<close>, \<open>SetUnfresh\<close>, \<open>LastRefresh\<close>) are not in
  the sources; only the interface declaration is. Sections 3 and 4.5 of the specification
  describe a cacheable file as a content strategy with a fresh flag and a last-refresh
  timestamp in nanoseconds (an \<open>int64\<close> that the code only compares). The field
  \<open>loads\<close> is an instrumentation counter: the number of times \<open>LoadContents\<close> was
  called on the file object.
\<close>

record 'c File =
  strategy :: 'c
  fresh :: bool
  lastRefresh :: int
  loads :: nat

text \<open>
  What the environment provides at the moment of a call: the content strategy's load (it
  reads the disk and may fail), its render, and the wall clock \<open>time.Now().UnixNano()\<close>.
\<close>

record 'c World =
  load :: "'c \<Rightarrow> GophorError + 'c"
  render :: "'c \<Rightarrow> bytes"
  now :: int

definition IsFresh :: "'c File \<Rightarrow> bool" where
  "IsFresh f = fresh f"

definition LastRefresh :: "'c File \<Rightarrow> int" where
  "LastRefresh f = lastRefresh f"

definition SetUnfresh :: "'c File \<Rightarrow> 'c File" where
  "SetUnfresh f = f\<lparr>fresh := False\<rparr>"

definition Contents :: "'c World \<Rightarrow> 'c File \<Rightarrow> bytes" where
  "Contents w f = render w (strategy f)"

text \<open>
  \<open>LoadContents\<close> mutates the file object and returns \<open>nil\<close> (\<open>None\<close>) or an error:
  the model returns the error and the file object as it is after the call. On success
  the file is fresh and its last refresh is now; on an error only the call is counted.
\<close>

definition LoadContents :: "'c World \<Rightarrow> 'c File \<Rightarrow> GophorError option \<times> 'c File" where
  "LoadContents w f =
     (case load w (strategy f) of
        Inl gophorErr \<Rightarrow> (Some gophorErr, f\<lparr>loads := Suc (loads f)\<rparr>)
      | Inr c \<Rightarrow> (None, f\<lparr>strategy := c, fresh := True, lastRefresh := now w,
                             loads := Suc (loads f)\<rparr>))"

subsection \<open>The LRU list (container/list)\<close>

text \<open>
  A \<open>list.List\<close> is a doubly linked list of elements; an \<open>*list.Element\<close> is a handle
  with an identity. The model keeps the elements front to back, each as a pair of its
  identity and its value, and allocates identities from a counter.
\<close>

type_synonym Element = nat
type_synonym List = "(Element \<times> path) list"

definition Remove :: "List \<Rightarrow> Element \<Rightarrow> List" where
  "Remove l e = filter (\<lambda>x. fst x \<noteq> e) l"

text \<open>
  \<open>MoveToFront(e)\<close> does nothing when \<open>e\<close> is not an element of the list (an element
  that was removed has \<open>e.list = nil\<close>).
\<close>

definition MoveToFront :: "List \<Rightarrow> Element \<Rightarrow> List" where
  "MoveToFront l e =
     (case find (\<lambda>x. fst x = e) l of
        None \<Rightarrow> l
      | Some x \<Rightarrow> x # Remove l e)"

subsection \<open>The cache\<close>

record 'c FileCache =
  CacheMap :: "path \<rightharpoonup> ('c File \<times> Element)"
  FileList :: List
  nextElement :: Element
  Size :: int
  NewFile :: "path \<Rightarrow> 'c File"

definition Init :: "int \<Rightarrow> (path \<Rightarrow> 'c File) \<Rightarrow> 'c FileCache" where
  "Init sz newFileFunc =
     \<lparr>CacheMap = Map.empty, FileList = [], nextElement = 0, Size = sz,
      NewFile = newFileFunc\<rparr>"

text \<open>
  The eviction block of \<open>Fetch\<close> (lines 177 to 193). \<open>None\<close> is a panic: \<open>Back()\<close> of an
  empty list is \<open>nil\<close>, and \<open>fc.CacheMap[removePath]\<close> of an absent path is \<open>nil\<close>; the
  code dereferences both.
\<close>

definition evict :: "'c FileCache \<Rightarrow> 'c FileCache option" where
  "evict fc =
     (case FileList fc of
        [] \<Rightarrow> None
      | _ # _ \<Rightarrow>
          (let removeElement = fst (last (FileList fc));
               removePath = snd (last (FileList fc))
           in case CacheMap fc removePath of
                None \<Rightarrow> None
              | Some _ \<Rightarrow>
                  Some (fc\<lparr>CacheMap := (CacheMap fc)(removePath := None),
                           FileList := Remove (FileList fc) removeElement\<rparr>)))"

text \<open>
  Lines 203 to 214: read the contents of the file the local variable \<open>fileElement\<close>
  refers to, move its element to the front of the list, return the bytes.
\<close>

definition finish ::
  "'c World \<Rightarrow> 'c FileCache \<Rightarrow> 'c File \<times> Element \<Rightarrow> (GophorError + bytes) \<times> 'c FileCache" where
  "finish w fc fileElement =
     (let b = Contents w (fst fileElement)
      in (Inr b, fc\<lparr>FileList := MoveToFront (FileList fc) (snd fileElement)\<rparr>))"

text \<open>
  Lines 154 to 200, the miss branch: construct the file with the factory, load it, push
  the path to the front of the list, store the entry in the map, and evict the back of
  the list when the length of the list equals \<open>Size\<close>.
\<close>

definition insertNew ::
  "'c FileCache \<Rightarrow> path \<Rightarrow> 'c File \<Rightarrow> ('c FileCache \<times> ('c File \<times> Element)) option" where
  "insertNew fc path file =
     (let element = nextElement fc;
          fc1 = fc\<lparr>FileList := (element, path) # FileList fc, nextElement := Suc element\<rparr>;
          fileElement = (file, element);
          fc2 = fc1\<lparr>CacheMap := (CacheMap fc1)(path \<mapsto> fileElement)\<rparr>
      in if int (length (FileList fc2)) = Size fc2
         then map_option (\<lambda>fc3. (fc3, fileElement)) (evict fc2)
         else Some (fc2, fileElement))"

text \<open>
  \<open>Fetch\<close>, run alone (no other goroutine between its first and its last line). The
  result \<open>None\<close> is a panic of the process.
\<close>

definition Fetch ::
  "'c World \<Rightarrow> 'c FileCache \<Rightarrow> path \<Rightarrow> ((GophorError + bytes) \<times> 'c FileCache) option" where
  "Fetch w fc path =
     (case CacheMap fc path of
        Some fileElement \<Rightarrow>
          (if \<not> IsFresh (fst fileElement) then
             (let (gophorErr, file) = LoadContents w (fst fileElement);
                  fc1 = fc\<lparr>CacheMap := (CacheMap fc)(path \<mapsto> (file, snd fileElement))\<rparr>
              in case gophorErr of
                   Some err \<Rightarrow> Some (Inl err, fc1)
                 | None \<Rightarrow> Some (finish w fc1 (file, snd fileElement)))
           else Some (finish w fc fileElement))
      | None \<Rightarrow>
          (let (gophorErr, file) = LoadContents w (NewFile fc path)
           in case gophorErr of
                Some err \<Rightarrow> Some (Inl err, fc)
              | None \<Rightarrow>
                  (case insertNew fc path file of
                     None \<Rightarrow> None
                   | Some (fc3, fileElement) \<Rightarrow> Some (finish w fc3 fileElement))))"

text \<open>A finite sequence of \<open>Fetch\<close> calls, each in the world of its moment.\<close>

fun FetchAll :: "'c FileCache \<Rightarrow> ('c World \<times> path) list \<Rightarrow> 'c FileCache option" where
  "FetchAll fc [] = Some fc"
| "FetchAll fc ((w, path) # rest) =
     (case Fetch w fc path of
        None \<Rightarrow> None
      | Some (r, fc') \<Rightarrow> FetchAll fc' rest)"

subsection \<open>The correspondence of the map and the list\<close>

text \<open>
  The correspondence between the map and the list: element identities and paths occur once
  in the list, the paths of the map are the paths of the list, the element handle stored
  with a path is the list element that holds the path, and every identity in use was
  allocated.
\<close>

definition cacheInv :: "'c FileCache \<Rightarrow> bool" where
  "cacheInv fc \<longleftrightarrow>
     distinct (map fst (FileList fc)) \<and>
     distinct (map snd (FileList fc)) \<and>
     dom (CacheMap fc) = snd ` set (FileList fc) \<and>
     (\<forall>p f e. CacheMap fc p = Some (f, e) \<longrightarrow> (e, p) \<in> set (FileList fc)) \<and>
     (\<forall>x \<in> set (FileList fc). fst x < nextElement fc)"

subsection \<open>The content strategies of the regular cache\<close>

text \<open>
  Modelled from the spec: the content strategies and the constructor \<open>NewRegularFile\<close>
  are not in the sources (only their uses in \<open>startFileCaching\<close> and
  \<open>cachePolicyFiles\<close> are). Section 3 of the specification: a regular strategy owns the
  bytes of the file at its path, its load reads the whole file and fails when the file
  cannot be read; a generated strategy owns bytes computed beforehand, and its load does
  nothing. Either renders to its bytes. \<open>disk\<close> is the contents of the readable files.
\<close>

datatype FileContents = RegularFileContents path bytes | GeneratedFileContents bytes

definition loadFileContents :: "(path \<rightharpoonup> bytes) \<Rightarrow> FileContents \<Rightarrow> GophorError + FileContents" where
  "loadFileContents disk c =
     (case c of
        RegularFileContents p old \<Rightarrow>
          (case disk p of
             None \<Rightarrow> Inl NotFound
           | Some b \<Rightarrow> Inr (RegularFileContents p b))
      | GeneratedFileContents b \<Rightarrow> Inr (GeneratedFileContents b))"

definition renderFileContents :: "FileContents \<Rightarrow> bytes" where
  "renderFileContents c =
     (case c of RegularFileContents p b \<Rightarrow> b | GeneratedFileContents b \<Rightarrow> b)"

definition diskWorld :: "(path \<rightharpoonup> bytes) \<Rightarrow> int \<Rightarrow> FileContents World" where
  "diskWorld disk t = \<lparr>load = loadFileContents disk, render = renderFileContents, now = t\<rparr>"

definition NewRegularFile :: "path \<Rightarrow> FileContents File" where
  "NewRegularFile p = \<lparr>strategy = RegularFileContents p [], fresh = False, lastRefresh = 0, loads = 0\<rparr>"

text \<open>A disk with three files.\<close>

definition abcDisk :: "path \<rightharpoonup> bytes" where
  "abcDisk = [''/A'' \<mapsto> ''a'', ''/B'' \<mapsto> ''b'', ''/C'' \<mapsto> ''c'']"

section \<open>The freshness monitor\<close>

text \<open>
  The body of the loop of \<open>checkCacheFreshness\<close> after a successful stat (lines 68 to
  77), with \<open>timeModified = stat.ModTime().UnixNano()\<close>.
\<close>

definition checkFile :: "int \<Rightarrow> 'c File \<Rightarrow> 'c File" where
  "checkFile timeModified file =
     (if IsFresh file \<and> LastRefresh file < timeModified then SetUnfresh file else file)"

text \<open>
  The loop \<open>for path := range cache.CacheMap\<close>: Go visits every key of the map once, in
  an order it does not specify; \<open>keys\<close> is that order. \<open>stat path\<close> is the
  modification time in nanoseconds that \<open>os.Stat\<close> reports, \<open>None\<close> when it fails. The
  result \<open>None\<close> is the panic of \<open>cache.CacheMap[path].File\<close> on an absent path.
\<close>

fun checkLoop ::
  "(path \<Rightarrow> int option) \<Rightarrow> (path \<rightharpoonup> ('c File \<times> Element)) \<Rightarrow> path list \<Rightarrow>
   (path \<rightharpoonup> ('c File \<times> Element)) option" where
  "checkLoop stat m [] = Some m"
| "checkLoop stat m (path # rest) =
     (case stat path of
        None \<Rightarrow> checkLoop stat m rest
      | Some timeModified \<Rightarrow>
          (case m path of
             None \<Rightarrow> None
           | Some fileElement \<Rightarrow>
               checkLoop stat
                 (m(path \<mapsto> (checkFile timeModified (fst fileElement), snd fileElement))) rest))"

definition checkCacheFreshness ::
  "(path \<Rightarrow> int option) \<Rightarrow> path list \<Rightarrow> 'c FileCache \<Rightarrow> 'c FileCache option" where
  "checkCacheFreshness stat keys cache =
     map_option (\<lambda>m. cache\<lparr>CacheMap := m\<rparr>) (checkLoop stat (CacheMap cache) keys)"

text \<open>What one sweep does to the file cached at a path.\<close>

definition sweepFile :: "(path \<Rightarrow> int option) \<Rightarrow> path \<Rightarrow> 'c File \<Rightarrow> 'c File" where
  "sweepFile stat path file =
     (case stat path of None \<Rightarrow> file | Some timeModified \<Rightarrow> checkFile timeModified file)"

text \<open>A cache with one fresh entry, and a disk on which its file is newer.\<close>

definition monitorDemo :: "FileContents FileCache" where
  "monitorDemo =
     \<lparr>CacheMap = [''/A'' \<mapsto> (\<lparr>strategy = RegularFileContents ''/A'' ''a'', fresh = True,
                                 lastRefresh = 5, loads = 1\<rparr>, 0)],
      FileList = [(0, ''/A'')], nextElement = 1, Size = 4, NewFile = NewRegularFile\<rparr>"

definition demoStat :: "path \<Rightarrow> int option" where
  "demoStat p = (if p = ''/A'' then Some 9 else None)"

section \<open>Policy files\<close>

text \<open>
  Modelled from the spec: the constant \<open>DOSLineEnd\<close> is not in the sources; section 6 of
  the specification has every line of \<open>caps.txt\<close> and \<open>robots.txt\<close> end in CR LF.
\<close>

definition DOSLineEnd :: string where
  "DOSLineEnd = [CHR 0x0D, CHR 0x0A]"

text \<open>The fields of \<open>Config\<close> that \<open>generateCapsTxt\<close> reads.\<close>

record Config =
  Description :: string
  Geolocation :: string
  AdminEmail :: string

text \<open>\<open>GophorVersion\<close>, a constant that the sources do not define, is a parameter.\<close>

definition generateCapsTxt :: "string \<Rightarrow> Config \<Rightarrow> bytes" where
  "generateCapsTxt GophorVersion config =
     ''CAPS'' @ DOSLineEnd
     @ DOSLineEnd
     @ ''# This is an automatically generated'' @ DOSLineEnd
     @ ''# server policy file: caps.txt'' @ DOSLineEnd
     @ DOSLineEnd
     @ ''CapsVersion=1'' @ DOSLineEnd
     @ ''ExpireCapsAfter=1800'' @ DOSLineEnd
     @ DOSLineEnd
     @ ''PathDelimeter=/'' @ DOSLineEnd
     @ ''PathIdentity=.'' @ DOSLineEnd
     @ ''PathParent=..'' @ DOSLineEnd
     @ ''PathParentDouble=FALSE'' @ DOSLineEnd
     @ ''PathEscapeCharacter='' @ [CHR 0x5C] @ DOSLineEnd
     @ ''PathKeepPreDelimeter=FALSE'' @ DOSLineEnd
     @ DOSLineEnd
     @ ''ServerSoftware=Gophor'' @ DOSLineEnd
     @ ''ServerSoftwareVersion='' @ GophorVersion @ DOSLineEnd
     @ ''ServerDescription='' @ Description config @ DOSLineEnd
     @ ''ServerGeolocationString='' @ Geolocation config @ DOSLineEnd
     @ ''ServerDefaultEncoding=ascii'' @ DOSLineEnd
     @ DOSLineEnd
     @ ''ServerAdmin='' @ AdminEmail config @ DOSLineEnd"

definition generateRobotsTxt :: bytes where
  "generateRobotsTxt =
     ''Usage-agent: *'' @ DOSLineEnd
     @ ''Disallow: *'' @ DOSLineEnd
     @ DOSLineEnd
     @ ''Crawl-delay: 99999'' @ DOSLineEnd
     @ DOSLineEnd
     @ ''# This server does not support scraping'' @ DOSLineEnd"

text \<open>
  Modelled from the spec: the constructor \<open>NewFile(fileContents)\<close> that
  \<open>cachePolicyFiles\<close> calls is not in the sources. It wraps a content strategy in a
  cacheable file that was never loaded.
\<close>

definition NewFileOf :: "'c \<Rightarrow> 'c File" where
  "NewFileOf fileContents = \<lparr>strategy = fileContents, fresh = False, lastRefresh = 0, loads = 0\<rparr>"

text \<open>
  Modelled from the spec: the method \<open>CacheMap.Put\<close> that \<open>cachePolicyFiles\<close> calls is
  not in the sources. Section 4.8 of the specification: the file is placed in the cache at
  its path. In the representation of \<open>FileCache\<close> that is a new element at the front of
  the list and the entry of the map.
\<close>

definition Put :: "'c FileCache \<Rightarrow> path \<Rightarrow> 'c File \<Rightarrow> 'c FileCache" where
  "Put fc path file =
     fc\<lparr>FileList := (nextElement fc, path) # FileList fc,
        nextElement := Suc (nextElement fc),
        CacheMap := (CacheMap fc)(path \<mapsto> (file, nextElement fc))\<rparr>"

text \<open>One of the two blocks of \<open>cachePolicyFiles\<close>, after \<open>os.Stat\<close> has failed.\<close>

definition cacheGenerated ::
  "FileContents World \<Rightarrow> FileContents FileCache \<Rightarrow> path \<Rightarrow> bytes \<Rightarrow> FileContents FileCache" where
  "cacheGenerated w fc path content =
     (let fileContents = GeneratedFileContents content;
          file = snd (LoadContents w (NewFileOf fileContents))
      in Put fc path file)"

text \<open>
  \<open>cachePolicyFiles\<close>: \<open>stat path\<close> is \<open>None\<close> when \<open>os.Stat\<close> returns an error. The
  cache is \<open>Config.FileCache\<close>.
\<close>

definition cachePolicyFiles ::
  "(path \<Rightarrow> int option) \<Rightarrow> FileContents World \<Rightarrow> string \<Rightarrow> Config \<Rightarrow>
   FileContents FileCache \<Rightarrow> FileContents FileCache" where
  "cachePolicyFiles stat w GophorVersion config fc =
     (let fc1 = (if stat ''/caps.txt'' = None
                 then cacheGenerated w fc ''/caps.txt'' (generateCapsTxt GophorVersion config)
                 else fc);
          fc2 = (if stat ''/robots.txt'' = None
                 then cacheGenerated w fc1 ''/robots.txt'' generateRobotsTxt
                 else fc1)
      in fc2)"

definition demoConfig :: Config where
  "demoConfig = \<lparr>Description = ''A gopher server'', Geolocation = ''Earth'',
                 AdminEmail = ''admin@localhost''\<rparr>"

definition capsDisk :: "path \<rightharpoonup> bytes" where
  "capsDisk = [''/caps.txt'' \<mapsto> ''my own caps'']"

definition capsStat :: "path \<Rightarrow> int option" where
  "capsStat p = (if p = ''/caps.txt'' then Some 7 else None)"

definition noStat :: "path \<Rightarrow> int option" where
  "noStat p = None"

section \<open>Concurrent calls of Fetch\<close>

subsection \<open>Locks\<close>

text \<open>
  A \<open>sync.RWMutex\<close>: whether a writer holds it, and how many readers do. An operation
  that cannot proceed now has no result. (Go also makes a new reader wait while a writer
  waits; every interleaving of Go is one of this model.)
\<close>

record RWMutex =
  writer :: bool
  readers :: nat

definition unlocked :: RWMutex where
  "unlocked = \<lparr>writer = False, readers = 0\<rparr>"

definition RLock :: "RWMutex \<Rightarrow> RWMutex option" where
  "RLock m = (if writer m then None else Some (m\<lparr>readers := Suc (readers m)\<rparr>))"

definition RUnlock :: "RWMutex \<Rightarrow> RWMutex option" where
  "RUnlock m = (if readers m = 0 then None else Some (m\<lparr>readers := readers m - 1\<rparr>))"

definition Lock :: "RWMutex \<Rightarrow> RWMutex option" where
  "Lock m = (if writer m \<or> readers m \<noteq> 0 then None else Some (m\<lparr>writer := True\<rparr>))"

definition Unlock :: "RWMutex \<Rightarrow> RWMutex option" where
  "Unlock m = (if \<not> writer m then None else Some (m\<lparr>writer := False\<rparr>))"

subsection \<open>Shared state and program points\<close>

text \<open>
  The cache as goroutines share it. File objects live in a store, under identities
  allocated from a counter, each with its lock; the map holds for a path the identity of
  its file object and its list element (the two pointers of a \<open>FileElement\<close>).
\<close>

type_synonym FileRef = nat
type_synonym FileElement = "FileRef \<times> Element"

record 'c Shared =
  CacheMap_c :: "path \<rightharpoonup> FileElement"
  FileList_c :: List
  objects :: "FileRef \<rightharpoonup> 'c File"
  FileMutex :: "FileRef \<Rightarrow> RWMutex"
  CacheMutex :: RWMutex
  ListMutex :: bool
  nextElement_c :: Element
  nextFile_c :: FileRef
  Size_c :: int
  NewFile_c :: "path \<Rightarrow> 'c File"

text \<open>
  The program points of \<open>Fetch\<close>, named by the line of the statement that is executed
  next, with the local variables that are live there: \<open>fileElement\<close>, \<open>file\<close>,
  \<open>element\<close>, \<open>removeElement\<close>, \<open>removePath\<close>, \<open>gophorErr\<close> and \<open>b\<close>. A call
  ends at \<open>Returned\<close> with its result, or at \<open>Panicked\<close> when it dereferences
  \<open>nil\<close>: \<open>Back()\<close> of an empty list, or the map's value at an absent path.
\<close>

datatype pc =
    L128
  | L129
  | L133 FileElement
  | L136 FileElement
  | L138 FileElement
  | L139 FileElement
  | L141 FileElement
  | L144 FileElement GophorError
  | L145 GophorError
  | L150 FileElement
  | L151 FileElement
  | L155
  | L156
  | L159
  | L162 FileRef
  | L165 GophorError
  | L170 FileRef
  | L173 FileRef Element
  | L177 FileElement
  | L178 FileElement
  | L187 FileElement Element path
  | L188 FileElement Element path
  | L191 FileElement Element path
  | L192 FileElement Element
  | L196 FileElement
  | L197 FileElement
  | L200 FileElement
  | L204 FileElement
  | L205 FileElement bytes
  | L208 FileElement bytes
  | L209 FileElement bytes
  | L210 FileElement bytes
  | L212 FileElement bytes
  | Returned "GophorError + bytes"
  | Panicked

definition onFileMutex ::
  "(RWMutex \<Rightarrow> RWMutex option) \<Rightarrow> 'c Shared \<Rightarrow> FileRef \<Rightarrow> 'c Shared option" where
  "onFileMutex op s f =
     map_option (\<lambda>m. s\<lparr>FileMutex := (FileMutex s)(f := m)\<rparr>) (op (FileMutex s f))"

definition onCacheMutex ::
  "(RWMutex \<Rightarrow> RWMutex option) \<Rightarrow> 'c Shared \<Rightarrow> 'c Shared option" where
  "onCacheMutex op s = map_option (\<lambda>m. s\<lparr>CacheMutex := m\<rparr>) (op (CacheMutex s))"

definition goto :: "pc \<Rightarrow> 'c Shared option \<Rightarrow> ('c Shared \<times> pc) option" where
  "goto l r = map_option (\<lambda>s. (s, l)) r"

text \<open>
  One statement of \<open>Fetch(path)\<close>, executed by a goroutine at a program point. No result:
  the goroutine waits for a lock, or its call has ended. (A file reference that is in use
  always has its object in the store; the lookups that say so have no result otherwise.)
\<close>

fun threadStep :: "'c World \<Rightarrow> 'c Shared \<Rightarrow> path \<Rightarrow> pc \<Rightarrow> ('c Shared \<times> pc) option" where
  "threadStep w s path L128 = goto L129 (onCacheMutex RLock s)"
| "threadStep w s path L129 =
     (case CacheMap_c s path of
        Some fileElement \<Rightarrow> Some (s, L133 fileElement)
      | None \<Rightarrow> Some (s, L155))"
| "threadStep w s path (L133 fe) = goto (L136 fe) (onFileMutex RLock s (fst fe))"
| "threadStep w s path (L136 fe) =
     (case objects s (fst fe) of
        None \<Rightarrow> None
      | Some f \<Rightarrow> if \<not> IsFresh f then Some (s, L138 fe) else Some (s, L204 fe))"
| "threadStep w s path (L138 fe) = goto (L139 fe) (onFileMutex RUnlock s (fst fe))"
| "threadStep w s path (L139 fe) = goto (L141 fe) (onFileMutex Lock s (fst fe))"
| "threadStep w s path (L141 fe) =
     (case objects s (fst fe) of
        None \<Rightarrow> None
      | Some f \<Rightarrow>
          (let (gophorErr, f') = LoadContents w f;
               s' = s\<lparr>objects := (objects s)(fst fe \<mapsto> f')\<rparr>
           in case gophorErr of
                Some err \<Rightarrow> Some (s', L144 fe err)
              | None \<Rightarrow> Some (s', L150 fe)))"
| "threadStep w s path (L144 fe err) = goto (L145 err) (onFileMutex Unlock s (fst fe))"
| "threadStep w s path (L145 err) = goto (Returned (Inl err)) (onCacheMutex RUnlock s)"
| "threadStep w s path (L150 fe) = goto (L151 fe) (onFileMutex Unlock s (fst fe))"
| "threadStep w s path (L151 fe) = goto (L204 fe) (onFileMutex RLock s (fst fe))"
| "threadStep w s path L155 = goto L156 (onCacheMutex RUnlock s)"
| "threadStep w s path L156 = goto L159 (onCacheMutex Lock s)"
| "threadStep w s path L159 =
     Some (s\<lparr>objects := (objects s)(nextFile_c s \<mapsto> NewFile_c s path),
              FileMutex := (FileMutex s)(nextFile_c s := unlocked),
              nextFile_c := Suc (nextFile_c s)\<rparr>,
           L162 (nextFile_c s))"
| "threadStep w s path (L162 file) =
     (case objects s file of
        None \<Rightarrow> None
      | Some f \<Rightarrow>
          (let (gophorErr, f') = LoadContents w f;
               s' = s\<lparr>objects := (objects s)(file \<mapsto> f')\<rparr>
           in case gophorErr of
                Some err \<Rightarrow> Some (s', L165 err)
              | None \<Rightarrow> Some (s', L170 file)))"
| "threadStep w s path (L165 err) = goto (Returned (Inl err)) (onCacheMutex Unlock s)"
| "threadStep w s path (L170 file) =
     Some (s\<lparr>FileList_c := (nextElement_c s, path) # FileList_c s,
              nextElement_c := Suc (nextElement_c s)\<rparr>,
           L173 file (nextElement_c s))"
| "threadStep w s path (L173 file element) =
     Some (s\<lparr>CacheMap_c := (CacheMap_c s)(path \<mapsto> (file, element))\<rparr>, L177 (file, element))"
| "threadStep w s path (L177 fe) =
     (if int (length (FileList_c s)) = Size_c s then Some (s, L178 fe) else Some (s, L196 fe))"
| "threadStep w s path (L178 fe) =
     (case FileList_c s of
        [] \<Rightarrow> Some (s, Panicked)
      | _ # _ \<Rightarrow> Some (s, L187 fe (fst (last (FileList_c s))) (snd (last (FileList_c s)))))"
| "threadStep w s path (L187 fe removeElement removePath) =
     (case CacheMap_c s removePath of
        None \<Rightarrow> Some (s, Panicked)
      | Some r \<Rightarrow> goto (L188 fe removeElement removePath) (onFileMutex Lock s (fst r)))"
| "threadStep w s path (L188 fe removeElement removePath) =
     (case CacheMap_c s removePath of
        None \<Rightarrow> Some (s, Panicked)
      | Some r \<Rightarrow> goto (L191 fe removeElement removePath) (onFileMutex Unlock s (fst r)))"
| "threadStep w s path (L191 fe removeElement removePath) =
     Some (s\<lparr>CacheMap_c := (CacheMap_c s)(removePath := None)\<rparr>, L192 fe removeElement)"
| "threadStep w s path (L192 fe removeElement) =
     Some (s\<lparr>FileList_c := Remove (FileList_c s) removeElement\<rparr>, L196 fe)"
| "threadStep w s path (L196 fe) = goto (L197 fe) (onCacheMutex Unlock s)"
| "threadStep w s path (L197 fe) = goto (L200 fe) (onCacheMutex RLock s)"
| "threadStep w s path (L200 fe) = goto (L204 fe) (onFileMutex RLock s (fst fe))"
| "threadStep w s path (L204 fe) =
     (case objects s (fst fe) of
        None \<Rightarrow> None
      | Some f \<Rightarrow> Some (s, L205 fe (Contents w f)))"
| "threadStep w s path (L205 fe b) = goto (L208 fe b) (onFileMutex RUnlock s (fst fe))"
| "threadStep w s path (L208 fe b) =
     (if ListMutex s then None else Some (s\<lparr>ListMutex := True\<rparr>, L209 fe b))"
| "threadStep w s path (L209 fe b) =
     Some (s\<lparr>FileList_c := MoveToFront (FileList_c s) (snd fe)\<rparr>, L210 fe b)"
| "threadStep w s path (L210 fe b) =
     (if ListMutex s then Some (s\<lparr>ListMutex := False\<rparr>, L212 fe b) else None)"
| "threadStep w s path (L212 fe b) = goto (Returned (Inr b)) (onCacheMutex RUnlock s)"
| "threadStep w s path (Returned r) = None"
| "threadStep w s path Panicked = None"

text \<open>
  Goroutines, each a call \<open>Fetch(path)\<close> at a program point; a schedule names the
  goroutine that executes the next statement. A schedule with a step that is not possible
  has no result.
\<close>

type_synonym Goroutine = "path \<times> pc"

definition step ::
  "'c World \<Rightarrow> 'c Shared \<times> Goroutine list \<Rightarrow> nat \<Rightarrow> ('c Shared \<times> Goroutine list) option" where
  "step w cfg i =
     (if i < length (snd cfg) then
        (case threadStep w (fst cfg) (fst (snd cfg ! i)) (snd (snd cfg ! i)) of
           None \<Rightarrow> None
         | Some (s', l) \<Rightarrow> Some (s', (snd cfg)[i := (fst (snd cfg ! i), l)]))
      else None)"

fun run ::
  "'c World \<Rightarrow> 'c Shared \<times> Goroutine list \<Rightarrow> nat list \<Rightarrow> ('c Shared \<times> Goroutine list) option" where
  "run w cfg [] = Some cfg"
| "run w cfg (i # sched) =
     (case step w cfg i of
        None \<Rightarrow> None
      | Some cfg' \<Rightarrow> run w cfg' sched)"

text \<open>The shared state after \<open>Init\<close>, and \<open>n\<close> calls of \<open>Fetch(path)\<close> about to start.\<close>

definition Init_c :: "int \<Rightarrow> (path \<Rightarrow> 'c File) \<Rightarrow> 'c Shared" where
  "Init_c sz newFileFunc =
     \<lparr>CacheMap_c = Map.empty, FileList_c = [], objects = Map.empty,
      FileMutex = (\<lambda>f. unlocked), CacheMutex = unlocked, ListMutex = False,
      nextElement_c = 0, nextFile_c = 0, Size_c = sz, NewFile_c = newFileFunc\<rparr>"

definition calls :: "nat \<Rightarrow> path \<Rightarrow> Goroutine list" where
  "calls n path = replicate n (path, L128)"

text \<open>
  A goroutine that has not called \<open>LoadContents\<close> yet: \<open>Fetch\<close> calls it at line 141 or
  at line 162, and passes neither line twice.
\<close>

fun notLoaded :: "pc \<Rightarrow> bool" where
  "notLoaded L128 = True"
| "notLoaded L129 = True"
| "notLoaded (L133 fe) = True"
| "notLoaded (L136 fe) = True"
| "notLoaded (L138 fe) = True"
| "notLoaded (L139 fe) = True"
| "notLoaded (L141 fe) = True"
| "notLoaded L155 = True"
| "notLoaded L156 = True"
| "notLoaded L159 = True"
| "notLoaded (L162 f) = True"
| "notLoaded l = False"

text \<open>A cache that holds one entry, \<open>/A\<close>, which is stale.\<close>

definition staleShared :: "FileContents Shared" where
  "staleShared =
     \<lparr>CacheMap_c = [''/A'' \<mapsto> (0, 0)], FileList_c = [(0, ''/A'')],
      objects = [0 \<mapsto> \<lparr>strategy = RegularFileContents ''/A'' ''old'', fresh = False,
                         lastRefresh = 1, loads = 0\<rparr>],
      FileMutex = (\<lambda>f. unlocked), CacheMutex = unlocked, ListMutex = False,
      nextElement_c = 1, nextFile_c = 1, Size_c = 4, NewFile_c = NewRegularFile\<rparr>"

section \<open>Gophermaps: proofs\<close>

subsection \<open>Rendering\<close>

lemma RenderLoop_append:
  "RenderLoop env secs acc =
     acc @ concat (map (\<lambda>s. case SectionRender env s of
                              Inl gophorErr \<Rightarrow> buildInfoLine env (GophermapRenderErrorStr env)
                            | Inr c \<Rightarrow> c) secs)"
  by (induction secs arbitrary: acc) (simp_all add: Let_def)

text \<open>
  C6: rendering a parsed gophermap is a total function to bytes (it has no error result):
  for every section list it returns the concatenation, in order, of what each section
  contributes, which is the section's rendered bytes, or exactly one info line built from
  the render error string when the section's render returns an error.
\<close>

theorem Render_concat_sections:
  "Render env secs =
     concat (map (\<lambda>s. case SectionRender env s of
                         Inl gophorErr \<Rightarrow> buildInfoLine env (GophermapRenderErrorStr env)
                       | Inr c \<Rightarrow> c) secs)"
  by (simp add: Render_def RenderLoop_append)

theorem Render_concat_sections_witness:
  "Render demoEnv [GophermapText ''a'', GophermapDirListing ''/x'' {}, GophermapText ''b'']
     = ''a'' @ specInfoLine ''Error rendering gophermap'' @ ''b''"
  using Render_concat_sections[of demoEnv
      "[GophermapText ''a'', GophermapDirListing ''/x'' {}, GophermapText ''b'']"]
  by (simp add: demoEnv_def)

subsection \<open>The scanner\<close>

lemma Index_Some_prefix:
  "Index data sep = Some i \<Longrightarrow> prefix sep (drop i data) \<and> i \<le> length data"
proof (induction data arbitrary: i)
  case Nil
  then show ?case by (simp split: if_splits)
next
  case (Cons c cs)
  show ?case
  proof (cases "prefix sep (c # cs)")
    case True
    then show ?thesis using Cons.prems by simp
  next
    case False
    then obtain j where j: "Index cs sep = Some j" "i = Suc j" using Cons.prems by auto
    then show ?thesis using Cons.IH[OF j(1)] by simp
  qed
qed

lemma Index_Some_first:
  "Index data sep = Some i \<Longrightarrow> j < i \<Longrightarrow> \<not> prefix sep (drop j data)"
proof (induction data arbitrary: i j)
  case Nil
  then show ?case by (simp split: if_splits)
next
  case (Cons c cs)
  show ?case
  proof (cases "prefix sep (c # cs)")
    case True
    then show ?thesis using Cons.prems by simp
  next
    case False
    then obtain k where k: "Index cs sep = Some k" "i = Suc k" using Cons.prems by auto
    show ?thesis
    proof (cases j)
      case 0
      then show ?thesis using False by simp
    next
      case (Suc j')
      then show ?thesis using Cons.IH[OF k(1), of j'] Cons.prems(2) k(2) by simp
    qed
  qed
qed

lemma Index_None_iff:
  "Index data sep = None \<longleftrightarrow> (\<forall>j \<le> length data. \<not> prefix sep (drop j data))"
proof (induction data)
  case Nil
  then show ?case by auto
next
  case (Cons c cs)
  show ?case
  proof (cases "prefix sep (c # cs)")
    case True
    then show ?thesis by auto
  next
    case False
    have "(\<forall>j \<le> length (c # cs). \<not> prefix sep (drop j (c # cs))) \<longleftrightarrow>
          (\<forall>j \<le> length cs. \<not> prefix sep (drop j cs))"
    proof
      assume a: "\<forall>j \<le> length (c # cs). \<not> prefix sep (drop j (c # cs))"
      show "\<forall>j \<le> length cs. \<not> prefix sep (drop j cs)"
      proof (intro allI impI)
        fix j assume "j \<le> length cs"
        then show "\<not> prefix sep (drop j cs)" using a[rule_format, of "Suc j"] by simp
      qed
    next
      assume a: "\<forall>j \<le> length cs. \<not> prefix sep (drop j cs)"
      show "\<forall>j \<le> length (c # cs). \<not> prefix sep (drop j (c # cs))"
      proof (intro allI impI)
        fix j assume j: "j \<le> length (c # cs)"
        show "\<not> prefix sep (drop j (c # cs))"
        proof (cases j)
          case 0
          then show ?thesis using False by simp
        next
          case (Suc j')
          then show ?thesis using a[rule_format, of j'] j by simp
        qed
      qed
    qed
    then show ?thesis using False Cons.IH by simp
  qed
qed


lemma Index_take_None:
  assumes "Index data sep = Some i" "sep \<noteq> []"
  shows "Index (take i data) sep = None"
proof -
  have il: "i \<le> length data" using Index_Some_prefix[OF assms(1)] by simp
  have "\<forall>j \<le> length (take i data). \<not> prefix sep (drop j (take i data))"
  proof (intro allI impI notI)
    fix j assume j: "j \<le> length (take i data)" and p: "prefix sep (drop j (take i data))"
    have ji: "j \<le> i" using j il by simp
    have "length sep \<le> length (drop j (take i data))" using p by (rule prefix_length_le)
    then have lt: "j < i" using assms(2) il by (cases sep) auto
    have "drop j (take i data @ drop i data) = drop j (take i data) @ drop i data"
      using ji il by (simp only: drop_append length_take min_absorb2 diff_is_0_eq' drop_0)
    then have "drop j data = drop j (take i data) @ drop i data"
      by (simp only: append_take_drop_id)
    then have "prefix sep (drop j data)" using p by (auto simp: prefix_def)
    then show False using Index_Some_first[OF assms(1) lt] by simp
  qed
  then show ?thesis by (simp only: Index_None_iff)
qed

lemma Index_Some_split:
  assumes "Index data sep = Some i"
  shows "data = take i data @ sep @ drop (i + length sep) data" "i + length sep \<le> length data"
proof -
  have p: "prefix sep (drop i data)" and il: "i \<le> length data"
    using Index_Some_prefix[OF assms] by simp_all
  then obtain r where r: "drop i data = sep @ r" by (auto simp: prefix_def)
  then have "drop (length sep) (drop i data) = r" by simp
  then have "r = drop (i + length sep) data" by (simp add: add.commute)
  then have "data = take i data @ sep @ drop (i + length sep) data"
    using r by (metis append_take_drop_id)
  then show "data = take i data @ sep @ drop (i + length sep) data" .
  have "length sep \<le> length (drop i data)" using p by (rule prefix_length_le)
  then show "i + length sep \<le> length data" using il by simp
qed

lemma splitCrLf_None:
  "Index data CrLf = None \<Longrightarrow> splitCrLf data True = (0, None)"
  by (simp add: splitCrLf_def)

lemma splitCrLf_Some:
  assumes "Index data CrLf = Some i"
  shows "splitCrLf data True = (i + 2, Some (take i data))"
proof -
  have "i + length CrLf \<le> length data" using Index_Some_split(2)[OF assms] .
  then have "data \<noteq> []" by (auto simp: CrLf_def)
  then show ?thesis using assms by (simp add: splitCrLf_def)
qed

lemma scan_step_None:
  assumes "Index data CrLf = None"
  shows "scanTokens splitCrLf data = Some []" "scanRest splitCrLf data = data"
  using splitCrLf_None[OF assms] by simp_all

lemma scan_step_Some:
  assumes "Index data CrLf = Some i"
  shows "scanTokens splitCrLf data =
           map_option ((#) (take i data)) (scanTokens splitCrLf (drop (i + 2) data))"
    and "scanRest splitCrLf data = scanRest splitCrLf (drop (i + 2) data)"
proof -
  have l: "i + 2 \<le> length data" using Index_Some_split(2)[OF assms] by (simp add: CrLf_def)
  show "scanTokens splitCrLf data =
           map_option ((#) (take i data)) (scanTokens splitCrLf (drop (i + 2) data))"
    using splitCrLf_Some[OF assms] l by (subst scanTokens.simps) simp
  show "scanRest splitCrLf data = scanRest splitCrLf (drop (i + 2) data)"
    using splitCrLf_Some[OF assms] l by (subst scanRest.simps) simp
qed

lemma scanTokens_splitCrLf:
  "\<exists>ls. scanTokens splitCrLf data = Some ls \<and>
        data = concat (map (\<lambda>l. l @ CrLf) ls) @ scanRest splitCrLf data \<and>
        (\<forall>l \<in> set ls. Index l CrLf = None) \<and>
        Index (scanRest splitCrLf data) CrLf = None"
proof (induction "length data" arbitrary: data rule: less_induct)
  case less
  show ?case
  proof (cases "Index data CrLf")
    case None
    then show ?thesis using scan_step_None[OF None] by simp
  next
    case (Some i)
    have l: "i + 2 \<le> length data" using Index_Some_split(2)[OF Some] by (simp add: CrLf_def)
    have d: "data = take i data @ CrLf @ drop (i + 2) data"
      using Index_Some_split(1)[OF Some] by (simp add: CrLf_def)
    have "length (drop (i + 2) data) < length data" using l by simp
    then obtain ls where ls: "scanTokens splitCrLf (drop (i + 2) data) = Some ls"
        "drop (i + 2) data = concat (map (\<lambda>l. l @ CrLf) ls) @ scanRest splitCrLf (drop (i + 2) data)"
        "\<forall>l \<in> set ls. Index l CrLf = None"
        "Index (scanRest splitCrLf (drop (i + 2) data)) CrLf = None"
      using less by blast
    have t: "scanTokens splitCrLf data = Some (take i data # ls)"
      using scan_step_Some(1)[OF Some] ls(1) by simp
    have r: "scanRest splitCrLf data = scanRest splitCrLf (drop (i + 2) data)"
      using scan_step_Some(2)[OF Some] .
    have n: "Index (take i data) CrLf = None"
      using Index_take_None[OF Some] by (simp add: CrLf_def)
    have "data = concat (map (\<lambda>l. l @ CrLf) (take i data # ls)) @ scanRest splitCrLf data"
    proof -
      have "concat (map (\<lambda>l. l @ CrLf) (take i data # ls)) @ scanRest splitCrLf data
              = take i data @ CrLf @ (concat (map (\<lambda>l. l @ CrLf) ls) @ scanRest splitCrLf (drop (i + 2) data))"
        using r by simp
      also have "\<dots> = take i data @ CrLf @ drop (i + 2) data" using ls(2) by simp
      also have "\<dots> = data" using d by simp
      finally show ?thesis by simp
    qed
    then show ?thesis using t n ls(3,4) r by simp
  qed
qed

subsection \<open>The parser\<close>






lemma gophermapIter_self_include:
  assumes "suffix (GophermapFileStr env) path"
    and "parseLineType env line = TypeSubGophermap" "line \<noteq> []" "tl line = path"
  shows "gophermapIter env rec path line st = Some (True, st)"
  using assms by (simp add: gophermapIter_def)

lemma gophermapIter_onlySelf:
  assumes "suffix (GophermapFileStr env) path" "onlySelfIncludes env path l"
  shows "\<exists>r. gophermapIter env rec path l st = Some r \<and>
             gophermapIter env rec' path l st = Some r"
  using assms
  by (cases "parseLineType env l") (auto simp: gophermapIter_def onlySelfIncludes_def)

lemma iterate_onlySelf:
  assumes "suffix (GophermapFileStr env) path" "\<forall>l \<in> set ls. onlySelfIncludes env path l"
  shows "\<exists>st'. iterate (gophermapIter env rec path) ls st = Some st' \<and>
               iterate (gophermapIter env rec' path) ls st = Some st'"
  using assms(2)
proof (induction ls arbitrary: st)
  case Nil
  then show ?case by simp
next
  case (Cons l ls)
  obtain c st1 where r: "gophermapIter env rec path l st = Some (c, st1)"
      "gophermapIter env rec' path l st = Some (c, st1)"
    using gophermapIter_onlySelf[OF assms(1), of l rec st rec'] Cons.prems by auto
  show ?case
  proof (cases c)
    case True
    then show ?thesis using r Cons.IH[of st1] Cons.prems by simp
  next
    case False
    then show ?thesis using r by simp
  qed
qed

text \<open>
  C7 as stated (an include directive whose target is the path being parsed is skipped,
  for every gophermap source) fails for a source whose path does not carry the gophermap
  suffix: the code compares the target with the path only after it has found the suffix
  on the target. The file \<open>/menu\<close> that includes \<open>/menu\<close> gets its own text as an
  info line.
\<close>

theorem readGophermap_inlines_self_without_suffix:
  "parseLineType demoEnv ''=/menu'' = TypeSubGophermap \<and>
   tl ''=/menu'' = ''/menu'' \<and>
   files demoEnv ''/menu'' = Some (''=/menu'' @ CrLf) \<and>
   gophermapIter demoEnv (\<lambda>p. None) ''/menu'' ''=/menu''
       \<lparr>sections = [], hidden = {}, dirListing = None\<rparr>
     \<noteq> Some (True, \<lparr>sections = [], hidden = {}, dirListing = None\<rparr>) \<and>
   readGophermap (Suc 0) demoEnv ''/menu''
     = Some (Inr [GophermapText (specInfoLine (''=/menu'' @ [CHR 0x0D]))])"
  by code_simp

text \<open>
  C7, amended: in a gophermap at a path that carries the gophermap suffix, an include
  directive whose target is that path is skipped: the iterator goes on with its state
  unchanged (no section, no error), whatever a recursive call would do, which is therefore
  not made. And such a gophermap whose include directives all name itself parses at depth
  one: the result is the same for every bound on the depth of the recursion.
\<close>

theorem readGophermap_skips_self_include:
  assumes "suffix (GophermapFileStr env) path"
  shows "(\<forall>line rec st. parseLineType env line = TypeSubGophermap \<and> line \<noteq> [] \<and> tl line = path
            \<longrightarrow> gophermapIter env rec path line st = Some (True, st)) \<and>
         (\<forall>data. files env path = Some data \<and>
                 (\<forall>l \<in> set (gophermapLines data). onlySelfIncludes env path l)
            \<longrightarrow> (\<exists>secs. \<forall>n. readGophermap (Suc n) env path = Some (Inr secs)))"
proof (intro conjI allI impI)
  fix line rec st
  assume "parseLineType env line = TypeSubGophermap \<and> line \<noteq> [] \<and> tl line = path"
  then show "gophermapIter env rec path line st = Some (True, st)"
    using gophermapIter_self_include[OF assms] by blast
next
  fix data
  assume a: "files env path = Some data \<and>
             (\<forall>l \<in> set (gophermapLines data). onlySelfIncludes env path l)"
  obtain ls where ls: "scanTokens splitCrLf data = Some ls"
    using scanTokens_splitCrLf[of data] by blast
  then have g: "gophermapLines data = ls" by (simp add: gophermapLines_def)
  let ?st = "\<lparr>sections = [], hidden = {}, dirListing = None\<rparr>"
  let ?fin = "\<lambda>st. case dirListing st of
                      None \<Rightarrow> sections st
                    | Some dir \<Rightarrow> sections st @ [GophermapDirListing dir (hidden st)]"
  have all: "\<forall>l \<in> set ls. onlySelfIncludes env path l" using a g by simp
  obtain st0 where st0: "iterate (gophermapIter env (\<lambda>p. None) path) ls ?st = Some st0"
    using iterate_onlySelf[OF assms all, of "\<lambda>p. None" ?st "\<lambda>p. None"] by blast
  have "\<forall>n. readGophermap (Suc n) env path = Some (Inr (?fin st0))"
  proof
    fix n
    have "iterate (gophermapIter env (readGophermap n env) path) ls ?st = Some st0"
      using iterate_onlySelf[OF assms all, of "readGophermap n env" ?st "\<lambda>p. None"] st0 by auto
    then show "readGophermap (Suc n) env path = Some (Inr (?fin st0))"
      using a ls by (simp add: readGophermapBody_def bufferedScan_def)
  qed
  then show "\<exists>secs. \<forall>n. readGophermap (Suc n) env path = Some (Inr secs)" by blast
qed

lemma demo_lines_self:
  "gophermapLines (''Welcome'' @ CrLf @ ''=/self/gophermap'' @ CrLf @ ''Bye'' @ CrLf)
     = [''Welcome'', ''=/self/gophermap'', ''Bye'']"
  by code_simp

theorem readGophermap_skips_self_include_witness:
  "suffix (GophermapFileStr demoEnv) ''/self/gophermap'' \<and>
   gophermapIter demoEnv (\<lambda>p. None) ''/self/gophermap'' ''=/self/gophermap''
       \<lparr>sections = [], hidden = {}, dirListing = None\<rparr>
     = Some (True, \<lparr>sections = [], hidden = {}, dirListing = None\<rparr>) \<and>
   (\<exists>secs. readGophermap (Suc 0) demoEnv ''/self/gophermap'' = Some (Inr secs))"
proof -
  have s: "suffix (GophermapFileStr demoEnv) ''/self/gophermap''"
    by (simp add: demoEnv_def suffix_def)
  have t: "parseLineType demoEnv ''=/self/gophermap'' = TypeSubGophermap \<and>
           ''=/self/gophermap'' \<noteq> [] \<and> tl ''=/self/gophermap'' = ''/self/gophermap''"
    by (simp add: demoEnv_def specLineType_def)
  have f: "files demoEnv ''/self/gophermap'' =
             Some (''Welcome'' @ CrLf @ ''=/self/gophermap'' @ CrLf @ ''Bye'' @ CrLf)"
    by (simp add: demoEnv_def demoFiles_def)
  have o: "\<forall>l \<in> set (gophermapLines (''Welcome'' @ CrLf @ ''=/self/gophermap'' @ CrLf @ ''Bye'' @ CrLf)).
             onlySelfIncludes demoEnv ''/self/gophermap'' l"
    by (simp only: demo_lines_self) (simp add: onlySelfIncludes_def demoEnv_def specLineType_def)
  show ?thesis using readGophermap_skips_self_include[OF s] s t f o by blast
qed


text \<open>
  Two gophermaps that include each other: the parse of either returns within no bound on
  the depth of the recursion. (Neither holds a last-line directive; this is why the
  coverage of the lines above is stated under the condition that every line lets the
  iterator return.)
\<close>

lemma readGophermapBody_stuck:
  assumes "files env path = Some data" "scanTokens splitCrLf data = Some ls"
    and "iterate (gophermapIter env rec path) ls \<lparr>sections = [], hidden = {}, dirListing = None\<rparr> = None"
  shows "readGophermapBody env rec path = None"
  using assms by (simp add: readGophermapBody_def bufferedScan_def)

lemma readGophermap_cycle_never_returns:
  "readGophermap n demoEnv ''/a/gophermap'' = None \<and>
   readGophermap n demoEnv ''/b/gophermap'' = None"
proof (induction n)
  case 0
  then show ?case by simp
next
  case (Suc n)
  have ta: "scanTokens splitCrLf (''=/b/gophermap'' @ CrLf) = Some [''=/b/gophermap'']"
    by code_simp
  have tb: "scanTokens splitCrLf (''=/a/gophermap'' @ CrLf) = Some [''=/a/gophermap'']"
    by code_simp
  have fa: "files demoEnv ''/a/gophermap'' = Some (''=/b/gophermap'' @ CrLf)"
    by (simp add: demoEnv_def demoFiles_def)
  have fb: "files demoEnv ''/b/gophermap'' = Some (''=/a/gophermap'' @ CrLf)"
    by (simp add: demoEnv_def demoFiles_def)
  have ia: "gophermapIter demoEnv (readGophermap n demoEnv) ''/a/gophermap'' ''=/b/gophermap'' st = None"
    for st
    using Suc by (simp add: gophermapIter_def demoEnv_def specLineType_def suffix_def)
  have ib: "gophermapIter demoEnv (readGophermap n demoEnv) ''/b/gophermap'' ''=/a/gophermap'' st = None"
    for st
    using Suc by (simp add: gophermapIter_def demoEnv_def specLineType_def suffix_def)
  let ?st = "\<lparr>sections = [], hidden = {}, dirListing = None\<rparr>"
  have "iterate (gophermapIter demoEnv (readGophermap n demoEnv) ''/a/gophermap'')
          [''=/b/gophermap''] ?st = None"
    by (simp only: iterate.simps ia option.case)
  then have a: "readGophermap (Suc n) demoEnv ''/a/gophermap'' = None"
    using readGophermapBody_stuck[OF fa ta] by (simp only: readGophermap.simps)
  have "iterate (gophermapIter demoEnv (readGophermap n demoEnv) ''/b/gophermap'')
          [''=/a/gophermap''] ?st = None"
    by (simp only: iterate.simps ib option.case)
  then have b: "readGophermap (Suc n) demoEnv ''/b/gophermap'' = None"
    using readGophermapBody_stuck[OF fb tb] by (simp only: readGophermap.simps)
  show ?case using a b by (rule conjI)
qed

lemma find_fst_Some:
  "find (\<lambda>x. fst x = e) l = Some x \<Longrightarrow> x \<in> set l \<and> fst x = e"
  by (induction l) (auto split: if_splits)

lemma find_fst_None:
  "find (\<lambda>x. fst x = e) l = None \<Longrightarrow> e \<notin> fst ` set l"
  by (induction l) (auto split: if_splits)

lemma set_Remove_fst:
  "distinct (map fst l) \<Longrightarrow> x \<in> set l \<Longrightarrow> set (Remove l (fst x)) = set l - {x}"
  unfolding Remove_def
  by (induction l) (auto simp: rev_image_eqI)

lemma distinct_Remove:
  "distinct (map f l) \<Longrightarrow> distinct (map f (Remove l e))"
  unfolding Remove_def by (induction l) auto

lemma Remove_absent: "e \<notin> fst ` set l \<Longrightarrow> Remove l e = l"
  unfolding Remove_def by (induction l) auto

lemma length_Remove_fst:
  "distinct (map fst l) \<Longrightarrow> x \<in> set l \<Longrightarrow> Suc (length (Remove l (fst x))) = length l"
proof (induction l)
  case Nil
  then show ?case by simp
next
  case (Cons y l)
  show ?case
  proof (cases "x = y")
    case True
    then have "fst x \<notin> fst ` set l" using Cons.prems by simp
    then have "Remove l (fst x) = l" by (rule Remove_absent)
    then show ?thesis using True by (simp add: Remove_def)
  next
    case False
    then have "x \<in> set l" using Cons.prems by simp
    moreover have "fst y \<noteq> fst x" using Cons.prems \<open>x \<in> set l\<close> by auto
    ultimately show ?thesis using Cons by (simp add: Remove_def)
  qed
qed

lemma set_MoveToFront:
  assumes "distinct (map fst l)"
  shows "set (MoveToFront l e) = set l"
proof (cases "find (\<lambda>x. fst x = e) l")
  case None
  then show ?thesis by (simp add: MoveToFront_def)
next
  case (Some x)
  then have x: "x \<in> set l" "fst x = e" using find_fst_Some by fastforce+
  have "set (Remove l e) = set l - {x}" using set_Remove_fst[OF assms x(1)] x(2) by simp
  then show ?thesis using Some x(1) by (auto simp: MoveToFront_def)
qed

lemma length_MoveToFront:
  assumes "distinct (map fst l)"
  shows "length (MoveToFront l e) = length l"
proof (cases "find (\<lambda>x. fst x = e) l")
  case None
  then show ?thesis by (simp add: MoveToFront_def)
next
  case (Some x)
  then have x: "x \<in> set l" "fst x = e" using find_fst_Some by fastforce+
  show ?thesis using Some length_Remove_fst[OF assms x(1)] x(2) by (simp add: MoveToFront_def)
qed

lemma distinct_MoveToFront:
  assumes "distinct (map fst l)" "distinct (map f l)"
  shows "distinct (map f (MoveToFront l e))"
proof (cases "find (\<lambda>x. fst x = e) l")
  case None
  then show ?thesis using assms by (simp add: MoveToFront_def)
next
  case (Some x)
  then have x: "x \<in> set l" "fst x = e" using find_fst_Some by fastforce+
  have "set (Remove l e) = set l - {x}" using set_Remove_fst[OF assms(1) x(1)] x(2) by simp
  moreover have "f x \<notin> f ` (set l - {x})"
    using assms(2) x(1) by (auto simp: distinct_map inj_on_def)
  ultimately show ?thesis
    using Some distinct_Remove[OF assms(2)] by (simp add: MoveToFront_def)
qed


lemma cacheInv_Init: "cacheInv (Init sz nf)"
  by (simp add: cacheInv_def Init_def)

lemma card_dom_cacheInv:
  assumes "cacheInv fc"
  shows "card (dom (CacheMap fc)) = length (FileList fc)"
proof -
  have "dom (CacheMap fc) = set (map snd (FileList fc))"
    using assms by (simp add: cacheInv_def)
  moreover have "distinct (map snd (FileList fc))"
    using assms by (simp add: cacheInv_def)
  ultimately show ?thesis using distinct_card by fastforce
qed

lemma cacheInv_MoveToFront:
  assumes "cacheInv fc"
  shows "cacheInv (fc\<lparr>FileList := MoveToFront (FileList fc) e\<rparr>)"
  using assms
  by (simp add: cacheInv_def set_MoveToFront distinct_MoveToFront)

lemma cacheInv_finish:
  assumes "cacheInv fc"
  shows "cacheInv (snd (finish w fc fe))"
  using cacheInv_MoveToFront[OF assms] by (simp add: finish_def Let_def)

lemma finish_fields:
  "CacheMap (snd (finish w fc fe)) = CacheMap fc"
  "Size (snd (finish w fc fe)) = Size fc"
  "NewFile (snd (finish w fc fe)) = NewFile fc"
  "FileList (snd (finish w fc fe)) = MoveToFront (FileList fc) (snd fe)"
  "fst (finish w fc fe) = Inr (Contents w (fst fe))"
  by (simp_all add: finish_def Let_def)

lemma cacheInv_update_file:
  assumes "cacheInv fc" "CacheMap fc path = Some (f, e)"
  shows "cacheInv (fc\<lparr>CacheMap := (CacheMap fc)(path \<mapsto> (f', e))\<rparr>)"
proof -
  have "dom ((CacheMap fc)(path \<mapsto> (f', e))) = dom (CacheMap fc)"
    using assms(2) by auto
  then show ?thesis using assms by (auto simp: cacheInv_def)
qed

lemma cacheInv_push:
  assumes "cacheInv fc" "CacheMap fc path = None"
  shows "cacheInv (fc\<lparr>FileList := (nextElement fc, path) # FileList fc,
                      nextElement := Suc (nextElement fc),
                      CacheMap := (CacheMap fc)(path \<mapsto> (file, nextElement fc))\<rparr>)"
proof -
  have "path \<notin> snd ` set (FileList fc)"
    using assms by (auto simp: cacheInv_def domIff)
  moreover have "nextElement fc \<notin> fst ` set (FileList fc)"
    using assms(1) by (auto simp: cacheInv_def)
  ultimately show ?thesis
    using assms(1) by (auto simp: cacheInv_def less_Suc_eq)
qed

lemma cacheInv_evict:
  assumes "cacheInv fc" "FileList fc \<noteq> []"
  shows "\<exists>fc'. evict fc = Some fc' \<and> cacheInv fc' \<and>
           Suc (length (FileList fc')) = length (FileList fc) \<and>
           FileList fc' = butlast (FileList fc) \<and>
           CacheMap fc' = (CacheMap fc)(snd (last (FileList fc)) := None) \<and>
           Size fc' = Size fc \<and> NewFile fc' = NewFile fc \<and> nextElement fc' = nextElement fc"
proof -
  let ?l = "FileList fc"
  let ?x = "last ?l"
  have xin: "?x \<in> set ?l" using assms(2) by simp
  have d1: "distinct (map fst ?l)" and d2: "distinct (map snd ?l)"
    using assms(1) by (simp_all add: cacheInv_def)
  have "snd ?x \<in> dom (CacheMap fc)" using assms(1) xin by (auto simp: cacheInv_def)
  then obtain fe where fe: "CacheMap fc (snd ?x) = Some fe" by auto
  let ?fc' = "fc\<lparr>CacheMap := (CacheMap fc)(snd ?x := None), FileList := Remove ?l (fst ?x)\<rparr>"
  have ev: "evict fc = Some ?fc'"
    using assms(2) fe by (cases ?l) (simp_all add: evict_def Let_def)
  have app: "butlast ?l @ [?x] = ?l" using assms(2) by simp
  have notin: "fst ?x \<notin> fst ` set (butlast ?l)"
  proof -
    have "distinct (map fst (butlast ?l @ [?x]))" using d1 by (simp only: app)
    then show ?thesis by auto
  qed
  have rm: "Remove ?l (fst ?x) = butlast ?l"
  proof -
    have "Remove (butlast ?l @ [?x]) (fst ?x) = Remove (butlast ?l) (fst ?x)"
      by (simp add: Remove_def)
    also have "\<dots> = butlast ?l" using notin by (rule Remove_absent)
    finally show ?thesis by (simp only: app)
  qed
  have setrm: "set (butlast ?l) = set ?l - {?x}"
    using set_Remove_fst[OF d1 xin] rm by simp
  have sndnotin: "snd ?x \<notin> snd ` set (butlast ?l)"
  proof -
    have "distinct (map snd (butlast ?l @ [?x]))" using d2 by (simp only: app)
    then show ?thesis by auto
  qed
  have inv: "cacheInv ?fc'"
    unfolding cacheInv_def
  proof (intro conjI)
    show "distinct (map fst (FileList ?fc'))"
      using distinct_Remove[OF d1, of "fst ?x"] by simp
    show "distinct (map snd (FileList ?fc'))"
      using distinct_Remove[OF d2, of "fst ?x"] by simp
    show "dom (CacheMap ?fc') = snd ` set (FileList ?fc')"
    proof -
      have "dom (CacheMap ?fc') = dom (CacheMap fc) - {snd ?x}" by auto
      also have "\<dots> = snd ` set ?l - {snd ?x}" using assms(1) by (simp add: cacheInv_def)
      also have "\<dots> = snd ` set (butlast ?l)"
      proof -
        have "set ?l = set (butlast ?l @ [?x])" by (simp only: app)
        then have "snd ` set ?l = insert (snd ?x) (snd ` set (butlast ?l))" by simp
        then show ?thesis using sndnotin by auto
      qed
      finally show ?thesis using rm by simp
    qed
    show "\<forall>p f e. CacheMap ?fc' p = Some (f, e) \<longrightarrow> (e, p) \<in> set (FileList ?fc')"
    proof (intro allI impI)
      fix p f e assume a: "CacheMap ?fc' p = Some (f, e)"
      then have p: "p \<noteq> snd ?x" "CacheMap fc p = Some (f, e)" by (auto split: if_splits)
      then have "(e, p) \<in> set ?l" using assms(1) by (auto simp: cacheInv_def)
      moreover have "(e, p) \<noteq> ?x" using p(1) by (cases ?x) auto
      ultimately show "(e, p) \<in> set (FileList ?fc')" using setrm rm by simp
    qed
    show "\<forall>x\<in>set (FileList ?fc'). fst x < nextElement ?fc'"
      using assms(1) rm setrm by (auto simp: cacheInv_def)
  qed
  have len: "Suc (length (FileList ?fc')) = length ?l"
    using rm assms(2) by simp
  show ?thesis using ev inv len rm by simp
qed


lemma insertNew_inv:
  assumes "cacheInv fc" "CacheMap fc path = None"
  shows "\<exists>fc3 fe. insertNew fc path file = Some (fc3, fe) \<and> cacheInv fc3 \<and>
           Size fc3 = Size fc \<and> NewFile fc3 = NewFile fc \<and>
           (int (length (FileList fc)) < Size fc \<longrightarrow> int (length (FileList fc3)) < Size fc)"
proof -
  let ?fc2 = "fc\<lparr>FileList := (nextElement fc, path) # FileList fc,
                   nextElement := Suc (nextElement fc),
                   CacheMap := (CacheMap fc)(path \<mapsto> (file, nextElement fc))\<rparr>"
  have inv2: "cacheInv ?fc2" using cacheInv_push[OF assms] .
  show ?thesis
  proof (cases "int (length (FileList ?fc2)) = Size ?fc2")
    case True
    have ne: "FileList ?fc2 \<noteq> []" by simp
    obtain fc' where fc': "evict ?fc2 = Some fc'" "cacheInv fc'"
        "Suc (length (FileList fc')) = length (FileList ?fc2)"
        "Size fc' = Size ?fc2" "NewFile fc' = NewFile ?fc2"
      using cacheInv_evict[OF inv2 ne] by blast
    have "insertNew fc path file = Some (fc', (file, nextElement fc))"
      using True fc'(1) by (simp add: insertNew_def Let_def)
    moreover have "int (length (FileList fc')) < Size fc"
      using True fc'(3) by simp
    ultimately show ?thesis using fc' by simp
  next
    case False
    have "insertNew fc path file = Some (?fc2, (file, nextElement fc))"
      using False by (simp add: insertNew_def Let_def)
    moreover have "int (length (FileList fc)) < Size fc \<longrightarrow> int (length (FileList ?fc2)) < Size fc"
      using False by auto
    ultimately show ?thesis using inv2 by simp
  qed
qed

lemma Fetch_inv:
  assumes "cacheInv fc"
  shows "\<exists>r fc'. Fetch w fc path = Some (r, fc') \<and> cacheInv fc' \<and>
           Size fc' = Size fc \<and> NewFile fc' = NewFile fc \<and>
           (int (length (FileList fc)) < Size fc \<longrightarrow> int (length (FileList fc')) < Size fc)"
proof (cases "CacheMap fc path")
  case None
  obtain gophorErr fl where lc: "LoadContents w (NewFile fc path) = (gophorErr, fl)"
    by (cases "LoadContents w (NewFile fc path)")
  show ?thesis
  proof (cases gophorErr)
    case (Some err)
    then have "Fetch w fc path = Some (Inl err, fc)"
      using None lc by (simp add: Fetch_def)
    then show ?thesis using assms by simp
  next
    case N: None
    obtain fc3 fe where i: "insertNew fc path fl = Some (fc3, fe)" "cacheInv fc3"
        "Size fc3 = Size fc" "NewFile fc3 = NewFile fc"
        "int (length (FileList fc)) < Size fc \<longrightarrow> int (length (FileList fc3)) < Size fc"
      using insertNew_inv[OF assms None] by blast
    have d: "distinct (map fst (FileList fc3))" using i(2) by (simp add: cacheInv_def)
    have "Fetch w fc path = Some (finish w fc3 fe)"
      using None lc N i(1) by (simp add: Fetch_def)
    then have "Fetch w fc path = Some (fst (finish w fc3 fe), snd (finish w fc3 fe))" by simp
    then show ?thesis
      using cacheInv_finish[OF i(2)] i(3,4,5) length_MoveToFront[OF d]
      by (simp add: finish_fields)
  qed
next
  case (Some fileElement)
  obtain f e where fe: "fileElement = (f, e)" by (cases fileElement)
  have d: "distinct (map fst (FileList fc))" using assms by (simp add: cacheInv_def)
  show ?thesis
  proof (cases "IsFresh f")
    case True
    have "Fetch w fc path = Some (finish w fc fileElement)"
      using Some fe True by (simp add: Fetch_def)
    then have "Fetch w fc path = Some (fst (finish w fc fileElement), snd (finish w fc fileElement))"
      by simp
    then show ?thesis
      using cacheInv_finish[OF assms] length_MoveToFront[OF d]
      by (simp add: finish_fields)
  next
    case False
    obtain gophorErr fl where lc: "LoadContents w f = (gophorErr, fl)"
      by (cases "LoadContents w f")
    let ?fc1 = "fc\<lparr>CacheMap := (CacheMap fc)(path \<mapsto> (fl, e))\<rparr>"
    have inv1: "cacheInv ?fc1" using cacheInv_update_file[OF assms] Some fe by simp
    show ?thesis
    proof (cases gophorErr)
      case (Some err)
      then have "Fetch w fc path = Some (Inl err, ?fc1)"
        using \<open>CacheMap fc path = Some fileElement\<close> fe False lc by (simp add: Fetch_def)
      then show ?thesis using inv1 by simp
    next
      case None
      then have "Fetch w fc path = Some (finish w ?fc1 (fl, e))"
        using \<open>CacheMap fc path = Some fileElement\<close> fe False lc by (simp add: Fetch_def)
      then have "Fetch w fc path = Some (fst (finish w ?fc1 (fl, e)), snd (finish w ?fc1 (fl, e)))"
        by simp
      then show ?thesis
        using cacheInv_finish[OF inv1] length_MoveToFront[OF d]
        by (simp add: finish_fields)
    qed
  qed
qed


lemma FetchAll_inv:
  assumes "cacheInv fc"
  shows "\<exists>fc'. FetchAll fc reqs = Some fc' \<and> cacheInv fc' \<and>
           Size fc' = Size fc \<and> NewFile fc' = NewFile fc \<and>
           (int (length (FileList fc)) < Size fc \<longrightarrow> int (length (FileList fc')) < Size fc)"
  using assms
proof (induction reqs arbitrary: fc)
  case Nil
  then show ?case by simp
next
  case (Cons req reqs)
  obtain w p where req: "req = (w, p)" by (cases req)
  obtain r fc1 where f: "Fetch w fc p = Some (r, fc1)" "cacheInv fc1"
      "Size fc1 = Size fc" "NewFile fc1 = NewFile fc"
      "int (length (FileList fc)) < Size fc \<longrightarrow> int (length (FileList fc1)) < Size fc"
    using Fetch_inv[OF Cons.prems] by blast
  obtain fc' where r: "FetchAll fc1 reqs = Some fc'" "cacheInv fc'"
      "Size fc' = Size fc1" "NewFile fc' = NewFile fc1"
      "int (length (FileList fc1)) < Size fc1 \<longrightarrow> int (length (FileList fc')) < Size fc1"
    using Cons.IH[OF f(2)] by blast
  show ?case using req f r by simp
qed

lemmas cache_defs = Fetch_def insertNew_def evict_def finish_def Init_def LoadContents_def
  MoveToFront_def Remove_def IsFresh_def Contents_def Let_def

lemmas disk_defs = diskWorld_def abcDisk_def NewRegularFile_def loadFileContents_def
  renderFileContents_def

subsection \<open>Bounded membership\<close>

text \<open>
  For a capacity of at least one, the list (and with it the map) holds fewer entries than
  \<open>Size\<close> after every sequence of calls, and no call panics.
\<close>

lemma FetchAll_bounded:
  assumes "1 \<le> C"
  shows "\<exists>fc. FetchAll (Init C nf) reqs = Some fc \<and> cacheInv fc \<and>
           int (card (dom (CacheMap fc))) < C"
proof -
  have i: "cacheInv (Init C nf)" by (rule cacheInv_Init)
  have l: "int (length (FileList (Init C nf))) < Size (Init C nf)"
    using assms by (simp add: Init_def)
  have s: "Size (Init C nf) = C" by (simp add: Init_def)
  obtain fc where fc: "FetchAll (Init C nf) reqs = Some fc" "cacheInv fc"
      "int (length (FileList fc)) < C"
    using FetchAll_inv[OF i, of reqs] l s by auto
  then show ?thesis using card_dom_cacheInv[OF fc(2)] by simp
qed

text \<open>
  C2 (the number of entries in the map is at most the capacity after each Fetch, for
  every capacity). The code evicts when the length of the list equals \<open>Size\<close>, a test
  that a capacity of zero never meets: on a cache of capacity 0 one successful Fetch
  leaves one entry in the map, and nothing is ever evicted.
\<close>

theorem Fetch_capacity_zero_keeps_entry:
  "(case Fetch (diskWorld abcDisk 1) (Init 0 NewRegularFile) ''/A'' of
      None \<Rightarrow> False
    | Some (r, fc) \<Rightarrow>
        r = Inr ''a'' \<and> dom (CacheMap fc) = {''/A''} \<and> card (dom (CacheMap fc)) = 1 \<and>
        \<not> int (card (dom (CacheMap fc))) \<le> Size fc)"
  by (simp add: cache_defs disk_defs)

subsection \<open>The scenario A, B, A, C on a cache of capacity 2\<close>

text \<open>
  C3 as stated (after A, B, A, C the map holds exactly A and C) fails: the map holds C
  alone.
\<close>

theorem Fetch_ABAC_not_A_and_C:
  "(case FetchAll (Init 2 NewRegularFile)
           [(diskWorld abcDisk 1, ''/A''), (diskWorld abcDisk 2, ''/B''),
            (diskWorld abcDisk 3, ''/A''), (diskWorld abcDisk 4, ''/C'')] of
      None \<Rightarrow> False
    | Some fc \<Rightarrow> dom (CacheMap fc) \<noteq> {''/A'', ''/C''} \<and> map snd (FileList fc) \<noteq> [''/A'', ''/C''])"
  by (simp add: cache_defs disk_defs)

text \<open>
  C3, amended: on a cache of capacity 2 that starts empty, after the successful Fetches
  A, B, A, C (three distinct paths, every load succeeding) the map holds exactly C, the
  list holds exactly C (which is therefore at its front), and both A and B have been
  evicted: each insertion brings the list to length 2, which evicts its back.
\<close>

theorem Fetch_ABAC_capacity_2:
  assumes "A \<noteq> B" "A \<noteq> C" "B \<noteq> C"
    and "load w1 (strategy (nf A)) = Inr a1" "load w2 (strategy (nf B)) = Inr b"
    and "load w3 (strategy (nf A)) = Inr a2" "load w4 (strategy (nf C)) = Inr c"
  shows "\<exists>fc. FetchAll (Init 2 nf) [(w1, A), (w2, B), (w3, A), (w4, C)] = Some fc \<and>
           dom (CacheMap fc) = {C} \<and> map snd (FileList fc) = [C] \<and>
           CacheMap fc A = None \<and> CacheMap fc B = None"
  using assms by (simp add: cache_defs)

theorem Fetch_ABAC_capacity_2_witness:
  "''/A'' \<noteq> ''/B'' \<and> ''/A'' \<noteq> ''/C'' \<and> ''/B'' \<noteq> ''/C'' \<and>
   load (diskWorld abcDisk 1) (strategy (NewRegularFile ''/A'')) = Inr (RegularFileContents ''/A'' ''a'') \<and>
   load (diskWorld abcDisk 2) (strategy (NewRegularFile ''/B'')) = Inr (RegularFileContents ''/B'' ''b'') \<and>
   load (diskWorld abcDisk 3) (strategy (NewRegularFile ''/A'')) = Inr (RegularFileContents ''/A'' ''a'') \<and>
   load (diskWorld abcDisk 4) (strategy (NewRegularFile ''/C'')) = Inr (RegularFileContents ''/C'' ''c'') \<and>
   (\<exists>fc. FetchAll (Init 2 NewRegularFile)
           [(diskWorld abcDisk 1, ''/A''), (diskWorld abcDisk 2, ''/B''),
            (diskWorld abcDisk 3, ''/A''), (diskWorld abcDisk 4, ''/C'')] = Some fc \<and>
         dom (CacheMap fc) = {''/C''} \<and> map snd (FileList fc) = [''/C''] \<and>
         CacheMap fc ''/A'' = None \<and> CacheMap fc ''/B'' = None)"
proof -
  have d: "''/A'' \<noteq> ''/B''" "''/A'' \<noteq> ''/C''" "''/B'' \<noteq> ''/C''" by simp_all
  have l1: "load (diskWorld abcDisk 1) (strategy (NewRegularFile ''/A'')) = Inr (RegularFileContents ''/A'' ''a'')"
    by (simp add: disk_defs)
  have l2: "load (diskWorld abcDisk 2) (strategy (NewRegularFile ''/B'')) = Inr (RegularFileContents ''/B'' ''b'')"
    by (simp add: disk_defs)
  have l3: "load (diskWorld abcDisk 3) (strategy (NewRegularFile ''/A'')) = Inr (RegularFileContents ''/A'' ''a'')"
    by (simp add: disk_defs)
  have l4: "load (diskWorld abcDisk 4) (strategy (NewRegularFile ''/C'')) = Inr (RegularFileContents ''/C'' ''c'')"
    by (simp add: disk_defs)
  show ?thesis
    using Fetch_ABAC_capacity_2[OF d l1 l2 l3 l4] d l1 l2 l3 l4 by blast
qed

subsection \<open>Eviction after insertion\<close>

text \<open>
  C10 as stated (every inserting Fetch leaves at most C - 1 entries, for every capacity
  C) fails for the capacity 0: one successful Fetch leaves one entry, which is more than
  -1.
\<close>

theorem Fetch_capacity_zero_exceeds_C_minus_1:
  "(case FetchAll (Init 0 NewRegularFile) [(diskWorld abcDisk 1, ''/A'')] of
      None \<Rightarrow> False
    | Some fc \<Rightarrow> \<not> int (card (dom (CacheMap fc))) \<le> 0 - 1)"
  by (simp add: cache_defs disk_defs)

text \<open>
  C10, amended: for every capacity C of at least 1, every sequence of Fetch calls on a
  cache that starts empty returns without a panic and leaves at most C - 1 entries in
  the map; with capacity 1 the map and the list are empty after every call, so that every
  Fetch finds its path absent and goes through the factory and a load.
\<close>

theorem Fetch_leaves_less_than_capacity:
  assumes "1 \<le> C"
  shows "\<exists>fc. FetchAll (Init C nf) reqs = Some fc \<and>
           int (card (dom (CacheMap fc))) \<le> C - 1 \<and>
           (C = 1 \<longrightarrow> CacheMap fc = Map.empty \<and> FileList fc = [])"
proof -
  obtain fc where fc: "FetchAll (Init C nf) reqs = Some fc" "cacheInv fc"
      "int (card (dom (CacheMap fc))) < C"
    using FetchAll_bounded[OF assms] by blast
  have c: "card (dom (CacheMap fc)) = length (FileList fc)"
    using card_dom_cacheInv[OF fc(2)] .
  have "C = 1 \<longrightarrow> CacheMap fc = Map.empty \<and> FileList fc = []"
  proof
    assume "C = 1"
    then have e: "FileList fc = []" using fc(3) c by simp
    then have "dom (CacheMap fc) = {}" using fc(2) by (simp add: cacheInv_def)
    then show "CacheMap fc = Map.empty \<and> FileList fc = []" using e by simp
  qed
  then show ?thesis using fc(1,3) by auto
qed

theorem Fetch_leaves_less_than_capacity_witness:
  "(1::int) \<le> 1 \<and>
   (\<exists>fc. FetchAll (Init 1 NewRegularFile)
           [(diskWorld abcDisk 1, ''/A''), (diskWorld abcDisk 2, ''/A'')] = Some fc \<and>
         int (card (dom (CacheMap fc))) \<le> 1 - 1 \<and>
         CacheMap fc = Map.empty \<and> FileList fc = [])"
proof -
  have h: "(1::int) \<le> 1" by simp
  show ?thesis
    using Fetch_leaves_less_than_capacity[OF h, of NewRegularFile
        "[(diskWorld abcDisk 1, ''/A''), (diskWorld abcDisk 2, ''/A'')]"]
    by simp
qed

section \<open>The freshness monitor: proofs\<close>

lemma checkLoop_eq:
  assumes "distinct keys" "set keys \<subseteq> dom m"
  shows "checkLoop stat m keys =
           Some (\<lambda>p. if p \<in> set keys
                      then map_option (\<lambda>fe. (sweepFile stat p (fst fe), snd fe)) (m p)
                      else m p)"
  using assms
proof (induction keys arbitrary: m)
  case Nil
  then show ?case by simp
next
  case (Cons k keys)
  obtain fe where fe: "m k = Some fe" using Cons.prems(2) by auto
  have d: "distinct keys" and kn: "k \<notin> set keys" using Cons.prems(1) by simp_all
  show ?case
  proof (cases "stat k")
    case None
    have sub: "set keys \<subseteq> dom m" using Cons.prems(2) by simp
    have "checkLoop stat m (k # keys) = checkLoop stat m keys" using None by simp
    also have "\<dots> = Some (\<lambda>p. if p \<in> set keys
                      then map_option (\<lambda>fe. (sweepFile stat p (fst fe), snd fe)) (m p)
                      else m p)"
      using Cons.IH[OF d sub] .
    also have "\<dots> = Some (\<lambda>p. if p \<in> set (k # keys)
                      then map_option (\<lambda>fe. (sweepFile stat p (fst fe), snd fe)) (m p)
                      else m p)"
      using None fe by (auto simp: sweepFile_def fun_eq_iff)
    finally show ?thesis .
  next
    case (Some t)
    let ?m = "m(k \<mapsto> (checkFile t (fst fe), snd fe))"
    have sub: "set keys \<subseteq> dom ?m" using Cons.prems(2) by auto
    have "checkLoop stat m (k # keys) = checkLoop stat ?m keys" using Some fe by simp
    also have "\<dots> = Some (\<lambda>p. if p \<in> set keys
                      then map_option (\<lambda>fe. (sweepFile stat p (fst fe), snd fe)) (?m p)
                      else ?m p)"
      using Cons.IH[OF d sub] .
    also have "\<dots> = Some (\<lambda>p. if p \<in> set (k # keys)
                      then map_option (\<lambda>fe. (sweepFile stat p (fst fe), snd fe)) (m p)
                      else m p)"
      using Some fe kn by (auto simp: sweepFile_def fun_eq_iff)
    finally show ?thesis .
  qed
qed

text \<open>
  C5: one iteration of the monitor over a cache returns, leaves the list and the key set
  of the map as they were (it removes nothing), and for every cached entry: the entry is
  fresh afterwards exactly when it was fresh and the stat did not report a modification
  time strictly greater than its last refresh (so the flag goes from true to false
  exactly when the entry was fresh and the file on disk is newer); nothing but the fresh
  flag changes, in particular the count of loads and the last refresh; and an entry whose
  stat fails is unchanged.
\<close>

theorem checkCacheFreshness_flips_exactly_stale:
  assumes "distinct keys" "set keys = dom (CacheMap cache)"
  shows "\<exists>cache'. checkCacheFreshness stat keys cache = Some cache' \<and>
           FileList cache' = FileList cache \<and>
           dom (CacheMap cache') = dom (CacheMap cache) \<and>
           (\<forall>path file e. CacheMap cache path = Some (file, e) \<longrightarrow>
              (\<exists>file'. CacheMap cache' path = Some (file', e) \<and>
                 (fresh file' \<longleftrightarrow>
                    fresh file \<and> \<not> (\<exists>t. stat path = Some t \<and> lastRefresh file < t)) \<and>
                 file' = file\<lparr>fresh := fresh file'\<rparr> \<and>
                 loads file' = loads file \<and>
                 (stat path = None \<longrightarrow> file' = file)))"
proof -
  let ?m' = "\<lambda>p. if p \<in> set keys
              then map_option (\<lambda>fe. (sweepFile stat p (fst fe), snd fe)) (CacheMap cache p)
              else CacheMap cache p"
  have sub: "set keys \<subseteq> dom (CacheMap cache)" using assms(2) by simp
  have l: "checkLoop stat (CacheMap cache) keys = Some ?m'"
    using checkLoop_eq[OF assms(1) sub] .
  then have c: "checkCacheFreshness stat keys cache = Some (cache\<lparr>CacheMap := ?m'\<rparr>)"
    by (simp add: checkCacheFreshness_def)
  have d: "dom ?m' = dom (CacheMap cache)"
    by (auto simp: dom_def split: if_splits)
  have e: "\<forall>path file e. CacheMap cache path = Some (file, e) \<longrightarrow>
              (\<exists>file'. ?m' path = Some (file', e) \<and>
                 (fresh file' \<longleftrightarrow>
                    fresh file \<and> \<not> (\<exists>t. stat path = Some t \<and> lastRefresh file < t)) \<and>
                 file' = file\<lparr>fresh := fresh file'\<rparr> \<and>
                 loads file' = loads file \<and>
                 (stat path = None \<longrightarrow> file' = file))"
  proof (intro allI impI)
    fix path fl e assume a: "CacheMap cache path = Some (fl, e)"
    then have k: "path \<in> set keys" using assms(2) by auto
    then have m: "?m' path = Some (sweepFile stat path fl, e)" using a by simp
    have p1: "fresh (sweepFile stat path fl) \<longleftrightarrow>
                fresh fl \<and> \<not> (\<exists>t. stat path = Some t \<and> lastRefresh fl < t)"
      by (cases "stat path")
         (auto simp: sweepFile_def checkFile_def IsFresh_def LastRefresh_def SetUnfresh_def)
    have p2: "sweepFile stat path fl = fl\<lparr>fresh := fresh (sweepFile stat path fl)\<rparr>"
      by (cases "stat path")
         (auto simp: sweepFile_def checkFile_def IsFresh_def LastRefresh_def SetUnfresh_def)
    have p3: "loads (sweepFile stat path fl) = loads fl"
      by (cases "stat path")
         (auto simp: sweepFile_def checkFile_def IsFresh_def LastRefresh_def SetUnfresh_def)
    have p4: "stat path = None \<longrightarrow> sweepFile stat path fl = fl"
      by (simp add: sweepFile_def)
    show "\<exists>file'. ?m' path = Some (file', e) \<and>
                 (fresh file' \<longleftrightarrow>
                    fresh fl \<and> \<not> (\<exists>t. stat path = Some t \<and> lastRefresh fl < t)) \<and>
                 file' = fl\<lparr>fresh := fresh file'\<rparr> \<and>
                 loads file' = loads fl \<and>
                 (stat path = None \<longrightarrow> file' = fl)"
      using m p1 p2 p3 p4 by (intro exI[where x = "sweepFile stat path fl"] conjI)
  qed
  show ?thesis using c d e by simp
qed

theorem checkCacheFreshness_flips_exactly_stale_witness:
  "distinct [''/A''] \<and> set [''/A''] = dom (CacheMap monitorDemo) \<and>
   (\<exists>cache'. checkCacheFreshness demoStat [''/A''] monitorDemo = Some cache' \<and>
      (\<exists>file'. CacheMap cache' ''/A'' = Some (file', 0) \<and> \<not> fresh file' \<and> loads file' = 1))"
proof -
  let ?f = "\<lparr>strategy = RegularFileContents ''/A'' ''a'', fresh = True,
             lastRefresh = 5, loads = 1\<rparr>"
  have h1: "distinct [''/A'']" by simp
  have h2: "set [''/A''] = dom (CacheMap monitorDemo)" by (simp add: monitorDemo_def)
  have g: "CacheMap monitorDemo ''/A'' = Some (?f, 0)" by (simp add: monitorDemo_def)
  obtain cache' where c: "checkCacheFreshness demoStat [''/A''] monitorDemo = Some cache'"
    and a: "\<forall>path fl e. CacheMap monitorDemo path = Some (fl, e) \<longrightarrow>
              (\<exists>file'. CacheMap cache' path = Some (file', e) \<and>
                 (fresh file' \<longleftrightarrow>
                    fresh fl \<and> \<not> (\<exists>t. demoStat path = Some t \<and> lastRefresh fl < t)) \<and>
                 file' = fl\<lparr>fresh := fresh file'\<rparr> \<and>
                 loads file' = loads fl \<and>
                 (demoStat path = None \<longrightarrow> file' = fl))"
    using checkCacheFreshness_flips_exactly_stale[OF h1 h2, of demoStat] by blast
  obtain file' where f: "CacheMap cache' ''/A'' = Some (file', 0)"
      "fresh file' \<longleftrightarrow> fresh ?f \<and> \<not> (\<exists>t. demoStat ''/A'' = Some t \<and> lastRefresh ?f < t)"
      "loads file' = loads ?f"
    using a g by blast
  have "\<not> fresh file'" using f(2) by (simp add: demoStat_def)
  then show ?thesis using h1 h2 c f(1,3) by auto
qed

section \<open>Policy files: proofs\<close>

lemma generateCapsTxt_prefix:
  "prefix (''CAPS'' @ [CHR 0x0D, CHR 0x0A, CHR 0x0D, CHR 0x0A]) (generateCapsTxt v config)"
  by (simp add: generateCapsTxt_def DOSLineEnd_def)

lemma generateCapsTxt_CapsVersion:
  "\<exists>pre post. generateCapsTxt v config =
      pre @ [CHR 0x0D, CHR 0x0A] @ ''CapsVersion=1'' @ [CHR 0x0D, CHR 0x0A] @ post"
proof -
  let ?pre = "''CAPS'' @ DOSLineEnd @ DOSLineEnd
     @ ''# This is an automatically generated'' @ DOSLineEnd
     @ ''# server policy file: caps.txt'' @ DOSLineEnd"
  let ?post = "''ExpireCapsAfter=1800'' @ DOSLineEnd
     @ DOSLineEnd
     @ ''PathDelimeter=/'' @ DOSLineEnd
     @ ''PathIdentity=.'' @ DOSLineEnd
     @ ''PathParent=..'' @ DOSLineEnd
     @ ''PathParentDouble=FALSE'' @ DOSLineEnd
     @ ''PathEscapeCharacter='' @ [CHR 0x5C] @ DOSLineEnd
     @ ''PathKeepPreDelimeter=FALSE'' @ DOSLineEnd
     @ DOSLineEnd
     @ ''ServerSoftware=Gophor'' @ DOSLineEnd
     @ ''ServerSoftwareVersion='' @ v @ DOSLineEnd
     @ ''ServerDescription='' @ Description config @ DOSLineEnd
     @ ''ServerGeolocationString='' @ Geolocation config @ DOSLineEnd
     @ ''ServerDefaultEncoding=ascii'' @ DOSLineEnd
     @ DOSLineEnd
     @ ''ServerAdmin='' @ AdminEmail config @ DOSLineEnd"
  have "generateCapsTxt v config =
          ?pre @ [CHR 0x0D, CHR 0x0A] @ ''CapsVersion=1'' @ [CHR 0x0D, CHR 0x0A] @ ?post"
    by (simp add: generateCapsTxt_def DOSLineEnd_def)
  then show ?thesis by blast
qed

lemma cachePolicyFiles_caps_entry:
  assumes "stat ''/caps.txt'' = None"
  shows "\<exists>e. CacheMap (cachePolicyFiles stat (diskWorld disk t) v config fc) ''/caps.txt'' =
           Some (\<lparr>strategy = GeneratedFileContents (generateCapsTxt v config), fresh = True,
                   lastRefresh = t, loads = 1\<rparr>, e)"
  using assms
  by (simp add: cachePolicyFiles_def cacheGenerated_def Put_def LoadContents_def NewFileOf_def
      diskWorld_def loadFileContents_def Let_def)

text \<open>
  C9 as stated (after the bootstrap a Fetch of \<open>/caps.txt\<close> returns the generated bytes
  from an entry that the bootstrap installed) fails when a file \<open>/caps.txt\<close> exists: the
  bootstrap installs no entry for it, and the Fetch returns the bytes of the file.
\<close>

theorem cachePolicyFiles_keeps_existing_caps:
  "CacheMap (cachePolicyFiles capsStat (diskWorld capsDisk 1) ''1.0'' demoConfig
              (Init 8 NewRegularFile)) ''/caps.txt'' = None \<and>
   (case Fetch (diskWorld capsDisk 2)
           (cachePolicyFiles capsStat (diskWorld capsDisk 1) ''1.0'' demoConfig
              (Init 8 NewRegularFile)) ''/caps.txt'' of
      None \<Rightarrow> False
    | Some (r, fc) \<Rightarrow>
        r = Inr ''my own caps'' \<and>
        \<not> prefix (''CAPS'' @ [CHR 0x0D, CHR 0x0A, CHR 0x0D, CHR 0x0A]) ''my own caps'')"
  by (simp add: cachePolicyFiles_def cacheGenerated_def Put_def NewFileOf_def capsStat_def
      capsDisk_def cache_defs diskWorld_def loadFileContents_def renderFileContents_def
      NewRegularFile_def)

text \<open>
  C9, amended: when no file \<open>/caps.txt\<close> exists at the bootstrap (the stat fails), the
  bootstrap installs at \<open>/caps.txt\<close> an entry that is fresh and holds the generated
  bytes, and a Fetch of \<open>/caps.txt\<close> on the bootstrapped cache, whatever is on the disk
  then, returns those bytes without a load; they begin with \<open>CAPS CR LF CR LF\<close> and
  contain the line \<open>CapsVersion=1 CR LF\<close>.
\<close>

theorem Fetch_caps_after_bootstrap:
  assumes "stat ''/caps.txt'' = None"
  shows "\<exists>b fc' f e pre post.
           Fetch (diskWorld disk' t') (cachePolicyFiles stat (diskWorld disk t) v config fc)
             ''/caps.txt'' = Some (Inr b, fc') \<and>
           b = generateCapsTxt v config \<and>
           prefix (''CAPS'' @ [CHR 0x0D, CHR 0x0A, CHR 0x0D, CHR 0x0A]) b \<and>
           b = pre @ [CHR 0x0D, CHR 0x0A] @ ''CapsVersion=1'' @ [CHR 0x0D, CHR 0x0A] @ post \<and>
           CacheMap (cachePolicyFiles stat (diskWorld disk t) v config fc) ''/caps.txt'' = Some (f, e) \<and>
           fresh f \<and> strategy f = GeneratedFileContents (generateCapsTxt v config) \<and>
           CacheMap fc' ''/caps.txt'' = Some (f, e)"
proof -
  let ?fc = "cachePolicyFiles stat (diskWorld disk t) v config fc"
  let ?f = "\<lparr>strategy = GeneratedFileContents (generateCapsTxt v config), fresh = True,
             lastRefresh = t, loads = 1\<rparr>"
  obtain e where e: "CacheMap ?fc ''/caps.txt'' = Some (?f, e)"
    using cachePolicyFiles_caps_entry[where stat = stat, OF assms] by blast
  have fe: "Fetch (diskWorld disk' t') ?fc ''/caps.txt'' = Some (finish (diskWorld disk' t') ?fc (?f, e))"
    using e by (simp add: Fetch_def IsFresh_def)
  let ?fc' = "snd (finish (diskWorld disk' t') ?fc (?f, e))"
  have r: "fst (finish (diskWorld disk' t') ?fc (?f, e)) = Inr (generateCapsTxt v config)"
    by (simp add: finish_fields Contents_def diskWorld_def renderFileContents_def)
  have m: "CacheMap ?fc' ''/caps.txt'' = Some (?f, e)"
    using e by (simp add: finish_fields)
  obtain pre post where pp: "generateCapsTxt v config =
      pre @ [CHR 0x0D, CHR 0x0A] @ ''CapsVersion=1'' @ [CHR 0x0D, CHR 0x0A] @ post"
    using generateCapsTxt_CapsVersion by blast
  have "Fetch (diskWorld disk' t') ?fc ''/caps.txt'' = Some (Inr (generateCapsTxt v config), ?fc')"
    using fe r by (metis prod.collapse)
  then show ?thesis
    using generateCapsTxt_prefix[of v config] pp e m by fastforce
qed

theorem Fetch_caps_after_bootstrap_witness:
  "noStat ''/caps.txt'' = None \<and>
   (\<exists>fc'. Fetch (diskWorld capsDisk 2)
            (cachePolicyFiles noStat (diskWorld Map.empty 1) ''1.0'' demoConfig (Init 8 NewRegularFile))
            ''/caps.txt'' = Some (Inr (generateCapsTxt ''1.0'' demoConfig), fc'))"
proof -
  have h: "noStat ''/caps.txt'' = None" by (simp add: noStat_def)
  show ?thesis
    using Fetch_caps_after_bootstrap[where stat = noStat and disk' = capsDisk and t' = 2
        and disk = Map.empty and t = 1 and v = "''1.0''" and config = demoConfig
        and fc = "Init 8 NewRegularFile", OF h] h
    by blast
qed

section \<open>Concurrent calls of Fetch: proofs\<close>

lemmas step_defs = goto_def onFileMutex_def onCacheMutex_def RLock_def RUnlock_def Lock_def
  Unlock_def LoadContents_def Let_def

lemma threadStep_loads:
  assumes "threadStep w s p l = Some (s', l')" "objects s f = Some fl" "f < nextFile_c s"
  shows "\<exists>fl'. objects s' f = Some fl' \<and> f < nextFile_c s' \<and>
           loads fl' + (if notLoaded l' then 1 else 0) \<le> loads fl + (if notLoaded l then 1 else 0)"
  using assms
  by (cases l) (auto simp: step_defs split: option.splits if_splits prod.splits sum.splits list.splits)

lemma count_update:
  assumes "i < length xs"
  shows "length (filter P (xs[i := y])) + (if P (xs ! i) then 1 else 0)
           = length (filter P xs) + (if P y then 1 else 0)"
proof -
  have a: "xs[i := y] = take i xs @ y # drop (Suc i) xs"
    using assms by (rule upd_conv_take_nth_drop)
  have b: "xs = take i xs @ xs ! i # drop (Suc i) xs"
    using assms by (rule id_take_nth_drop)
  have "length (filter P xs) = length (filter P (take i xs @ xs ! i # drop (Suc i) xs))"
    using b by simp
  then show ?thesis by (simp add: a)
qed


lemma step_loads:
  assumes "step w (s, ts) i = Some (s', ts')" "objects s f = Some fl" "f < nextFile_c s"
  shows "\<exists>fl'. objects s' f = Some fl' \<and> f < nextFile_c s' \<and>
           loads fl' + length (filter (\<lambda>t. notLoaded (snd t)) ts')
             \<le> loads fl + length (filter (\<lambda>t. notLoaded (snd t)) ts)"
proof -
  have i: "i < length ts" using assms(1) by (simp add: step_def split: if_splits)
  obtain l' where t: "threadStep w s (fst (ts ! i)) (snd (ts ! i)) = Some (s', l')"
      and ts': "ts' = ts[i := (fst (ts ! i), l')]"
    using assms(1) i by (auto simp: step_def split: option.splits)
  obtain fl' where fl': "objects s' f = Some fl'" "f < nextFile_c s'"
      "loads fl' + (if notLoaded l' then 1 else 0)
         \<le> loads fl + (if notLoaded (snd (ts ! i)) then 1 else 0)"
    using threadStep_loads[OF t assms(2,3)] by blast
  have c: "length (filter (\<lambda>t. notLoaded (snd t)) ts') + (if notLoaded (snd (ts ! i)) then 1 else 0)
             = length (filter (\<lambda>t. notLoaded (snd t)) ts) + (if notLoaded l' then 1 else 0)"
    using count_update[OF i, of "\<lambda>t. notLoaded (snd t)" "(fst (ts ! i), l')"] ts' by simp
  have "loads fl' + length (filter (\<lambda>t. notLoaded (snd t)) ts')
          \<le> loads fl + length (filter (\<lambda>t. notLoaded (snd t)) ts)"
    using fl'(3) c by (simp split: if_splits)
  then show ?thesis using fl'(1,2) by blast
qed

lemma run_loads:
  assumes "run w (s, ts) sched = Some (s', ts')" "objects s f = Some fl" "f < nextFile_c s"
  shows "\<exists>fl'. objects s' f = Some fl' \<and>
           loads fl' + length (filter (\<lambda>t. notLoaded (snd t)) ts')
             \<le> loads fl + length (filter (\<lambda>t. notLoaded (snd t)) ts)"
  using assms
proof (induction sched arbitrary: s ts fl)
  case Nil
  then show ?case by simp
next
  case (Cons i sched)
  obtain s1 ts1 where s1: "step w (s, ts) i = Some (s1, ts1)"
      and r: "run w (s1, ts1) sched = Some (s', ts')"
    using Cons.prems(1) by (auto split: option.splits)
  obtain fl1 where fl1: "objects s1 f = Some fl1" "f < nextFile_c s1"
      "loads fl1 + length (filter (\<lambda>t. notLoaded (snd t)) ts1)
         \<le> loads fl + length (filter (\<lambda>t. notLoaded (snd t)) ts)"
    using step_loads[OF s1 Cons.prems(2,3)] by blast
  obtain fl' where fl': "objects s' f = Some fl'"
      "loads fl' + length (filter (\<lambda>t. notLoaded (snd t)) ts')
         \<le> loads fl1 + length (filter (\<lambda>t. notLoaded (snd t)) ts1)"
    using Cons.IH[OF r fl1(1,2)] by blast
  show ?case using fl' fl1(3) by auto
qed

text \<open>
  C1, amended: concurrent Fetch calls for one path invoke the load of an entry at most
  once each, so \<open>n\<close> calls invoke it at most \<open>n\<close> times in aggregate, in every
  interleaving. A Fetch that found the entry stale under the read lock calls
  \<open>LoadContents\<close> once it holds the write lock, whatever the fresh flag is by then: line
  141 is reached from line 139 without a second look at the flag.
\<close>

theorem Fetch_loads_once_per_call:
  assumes "run w (s, calls n path) sched = Some (s', ts')"
    and "objects s f = Some fl" "f < nextFile_c s"
  shows "(\<exists>fl'. objects s' f = Some fl' \<and> loads fl' \<le> loads fl + n) \<and>
         (\<forall>s1 fe s2 l. threadStep w s1 path (L139 fe) = Some (s2, l) \<longrightarrow> l = L141 fe) \<and>
         (\<forall>s1 fe f1. objects s1 (fst fe) = Some f1 \<longrightarrow>
            (\<exists>s2 l. threadStep w s1 path (L141 fe) = Some (s2, l) \<and>
               map_option loads (objects s2 (fst fe)) = Some (Suc (loads f1))))"
proof (intro conjI)
  obtain fl' where fl': "objects s' f = Some fl'"
      "loads fl' + length (filter (\<lambda>t. notLoaded (snd t)) ts')
         \<le> loads fl + length (filter (\<lambda>t. notLoaded (snd t)) (calls n path))"
    using run_loads[OF assms] by blast
  have "length (filter (\<lambda>t. notLoaded (snd t)) (calls n path)) = n"
    by (simp add: calls_def)
  then show "\<exists>fl'. objects s' f = Some fl' \<and> loads fl' \<le> loads fl + n"
    using fl' by auto
next
  show "\<forall>s1 fe s2 l. threadStep w s1 path (L139 fe) = Some (s2, l) \<longrightarrow> l = L141 fe"
    by (auto simp: step_defs split: if_splits)
next
  show "\<forall>s1 fe f1. objects s1 (fst fe) = Some f1 \<longrightarrow>
            (\<exists>s2 l. threadStep w s1 path (L141 fe) = Some (s2, l) \<and>
               map_option loads (objects s2 (fst fe)) = Some (Suc (loads f1)))"
    by (auto simp: step_defs split: option.splits prod.splits sum.splits)
qed

theorem Fetch_loads_once_per_call_witness:
  "\<exists>s' ts' fl'.
     run (diskWorld abcDisk 5) (staleShared, calls 2 ''/A'')
       (replicate 5 0 @ replicate 5 1 @ replicate 10 0 @ replicate 10 1) = Some (s', ts') \<and>
     objects staleShared 0 =
       Some \<lparr>strategy = RegularFileContents ''/A'' ''old'', fresh = False,
              lastRefresh = 1, loads = 0\<rparr> \<and>
     0 < nextFile_c staleShared \<and>
     objects s' 0 = Some fl' \<and> loads fl' \<le> 0 + 2"
proof -
  let ?sched = "replicate 5 0 @ replicate 5 1 @ replicate 10 0 @ replicate 10 (1::nat)"
  let ?f = "\<lparr>strategy = RegularFileContents ''/A'' ''old'', fresh = False,
             lastRefresh = 1, loads = 0\<rparr>"
  have "run (diskWorld abcDisk 5) (staleShared, calls 2 ''/A'') ?sched \<noteq> None"
    by code_simp
  then obtain s' ts' where r:
      "run (diskWorld abcDisk 5) (staleShared, calls 2 ''/A'') ?sched = Some (s', ts')"
    by fastforce
  have o: "objects staleShared 0 = Some ?f" by (simp add: staleShared_def)
  have n: "0 < nextFile_c staleShared" by (simp add: staleShared_def)
  obtain fl' where "objects s' 0 = Some fl'" "loads fl' \<le> loads ?f + 2"
    using Fetch_loads_once_per_call[OF r o n] by blast
  then show ?thesis using r o n by auto
qed

text \<open>
  C1 as stated (concurrent Fetch calls for one stale path invoke the load at most once in
  aggregate, the second caller re-checking the flag) fails: two calls that both see the
  entry stale before either reloads it load it twice.
\<close>

theorem Fetch_stale_race_loads_twice:
  "(case run (diskWorld abcDisk 5) (staleShared, calls 2 ''/A'')
           (replicate 5 0 @ replicate 5 1 @ replicate 10 0 @ replicate 10 1) of
      None \<Rightarrow> False
    | Some (s, ts) \<Rightarrow>
        map_option loads (objects s 0) = Some 2 \<and>
        map snd ts = [Returned (Inr ''a''), Returned (Inr ''a'')])"
  by code_simp

text \<open>
  C4 (the paths of the map are the paths of the list, each once in the list, at every
  point outside the critical section of the map): two calls \<open>Fetch("/A")\<close> on an empty
  cache that both miss before either inserts each insert the path. With capacity 3 the
  list then holds \<open>/A\<close> twice and the map once. With capacity 2 the second call evicts
  the first call's element and with it the entry it has just stored, and the list holds
  \<open>/A\<close> while the map does not; both calls have returned and every lock is free. A
  later \<open>Fetch("/B")\<close> then evicts \<open>/A\<close>, finds no entry for it in the map and
  dereferences \<open>nil\<close> at line 187.
\<close>

theorem Fetch_miss_race_breaks_correspondence:
  "(case run (diskWorld abcDisk 1) (Init_c 3 NewRegularFile, calls 2 ''/A'')
           ([0, 0, 0, 1, 1, 1] @ replicate 15 0 @ replicate 15 1) of
      None \<Rightarrow> False
    | Some (s, ts) \<Rightarrow>
        map snd ts = [Returned (Inr ''a''), Returned (Inr ''a'')] \<and>
        CacheMutex s = unlocked \<and>
        FileList_c s = [(1, ''/A''), (0, ''/A'')] \<and>
        CacheMap_c s ''/A'' = Some (1, 1) \<and>
        \<not> distinct (map snd (FileList_c s))) \<and>
   (case run (diskWorld abcDisk 1) (Init_c 2 NewRegularFile, calls 2 ''/A'')
           ([0, 0, 0, 1, 1, 1] @ replicate 15 0 @ replicate 20 1) of
      None \<Rightarrow> False
    | Some (s, ts) \<Rightarrow>
        map snd ts = [Returned (Inr ''a''), Returned (Inr ''a'')] \<and>
        CacheMutex s = unlocked \<and>
        FileList_c s = [(1, ''/A'')] \<and>
        CacheMap_c s ''/A'' = None) \<and>
   (case run (diskWorld abcDisk 1)
           (Init_c 2 NewRegularFile, [(''/A'', L128), (''/A'', L128), (''/B'', L128)])
           ([0, 0, 0, 1, 1, 1] @ replicate 15 0 @ replicate 20 1 @ replicate 11 2) of
      None \<Rightarrow> False
    | Some (s, ts) \<Rightarrow>
        map snd ts = [Returned (Inr ''a''), Returned (Inr ''a''), Panicked])"
  by code_simp

text \<open>
  Calls that do not overlap: the four calls of the scenario A, B, A, C, each run from its
  first statement to its return before the next starts, leave the shared state that the
  sequential \<open>Fetch\<close> computes.
\<close>

lemma run_ABAC_one_after_another:
  "(case run (diskWorld abcDisk 1)
           (Init_c 2 NewRegularFile,
            [(''/A'', L128), (''/B'', L128), (''/A'', L128), (''/C'', L128)])
           (replicate 18 0 @ replicate 23 1 @ replicate 23 2 @ replicate 23 3) of
      None \<Rightarrow> False
    | Some (s, ts) \<Rightarrow>
        map snd ts = [Returned (Inr ''a''), Returned (Inr ''b''), Returned (Inr ''a''),
                      Returned (Inr ''c'')] \<and>
        map snd (FileList_c s) = [''/C''] \<and>
        CacheMap_c s ''/A'' = None \<and> CacheMap_c s ''/B'' = None \<and>
        map_option snd (CacheMap_c s ''/C'') = Some (fst (hd (FileList_c s))))"
  by code_simp

end
